theory Spec2Isabelle
  imports Main
begin

section \<open>Strings and characters\<close>

text \<open>
  A JavaScript string is modelled as an Isabelle \<open>string\<close>: a list of characters, each
  a code unit in the range 0..255 (ASCII and the Latin-1 supplement, on which the
  character classes and case mappings of the language are the ones written out below).
\<close>

definition charCode :: "char \<Rightarrow> nat" where
  "charCode c = of_char c"

text \<open>The class \<open>\d\<close>: the ten ASCII digits.\<close>

definition isDigit :: "char \<Rightarrow> bool" where
  "isDigit c = (48 \<le> charCode c \<and> charCode c \<le> 57)"

text \<open>The class \<open>\w\<close>: ASCII letters, ASCII digits and the underscore.\<close>

definition isWordChar :: "char \<Rightarrow> bool" where
  "isWordChar c =
     ((65 \<le> charCode c \<and> charCode c \<le> 90) \<or> (97 \<le> charCode c \<and> charCode c \<le> 122) \<or>
      isDigit c \<or> charCode c = 95)"

text \<open>
  The class \<open>\s\<close>, which is also what \<open>trim\<close> removes: tab, line feed, vertical tab,
  form feed, carriage return, space and the no-break space.
\<close>

definition isSpace :: "char \<Rightarrow> bool" where
  "isSpace c = (charCode c \<in> {9, 10, 11, 12, 13, 32, 160})"

definition isHyphen :: "char \<Rightarrow> bool" where
  "isHyphen c = (c = CHR ''-'')"

text \<open>
  \<open>toLowerCase\<close>: A..Z and the Latin-1 capitals (U+00C0..U+00DE without the
  multiplication sign U+00D7) move up by 32; every other character is kept.
\<close>

definition toLowerChar :: "char \<Rightarrow> char" where
  "toLowerChar c =
     (let n = charCode c in
      if (65 \<le> n \<and> n \<le> 90) \<or> (192 \<le> n \<and> n \<le> 222 \<and> n \<noteq> 215)
      then char_of (n + 32) else c)"

definition toLowerCase :: "string \<Rightarrow> string" where
  "toLowerCase s = map toLowerChar s"

text \<open>
  \<open>toUpperCase\<close>: a..z and the Latin-1 small letters (U+00E0..U+00FE without the
  division sign U+00F7) move down by 32, and the sharp s (U+00DF) becomes \<open>SS\<close>. The
  upper-case forms of U+00B5 and U+00FF lie outside the range of code units modelled
  here; these two characters are kept as they are (neither they nor their upper-case
  forms are a digit, a colon, white space or a letter of AM and PM).
\<close>

definition toUpperChar :: "char \<Rightarrow> string" where
  "toUpperChar c =
     (let n = charCode c in
      if (97 \<le> n \<and> n \<le> 122) \<or> (224 \<le> n \<and> n \<le> 254 \<and> n \<noteq> 247)
      then [char_of (n - 32)]
      else if n = 223 then ''SS'' else [c])"

definition toUpperCase :: "string \<Rightarrow> string" where
  "toUpperCase s = concat (map toUpperChar s)"

definition trim :: "string \<Rightarrow> string" where
  "trim s = rev (dropWhile isSpace (rev (dropWhile isSpace s)))"

text \<open>
  \<open>s.replace(/p+/g, r)\<close> for a character class \<open>p\<close>: every maximal run of
  characters of the class is replaced by \<open>r\<close>.
\<close>

function replaceRuns :: "(char \<Rightarrow> bool) \<Rightarrow> string \<Rightarrow> string \<Rightarrow> string" where
  "replaceRuns p r [] = []"
| "replaceRuns p r (c # cs) =
     (if p c then r @ replaceRuns p r (dropWhile p cs) else c # replaceRuns p r cs)"
  by pat_completeness auto
termination
  by (relation "measure (\<lambda>(p, r, s). length s)")
     (auto simp: less_Suc_eq_le length_dropWhile_le)

text \<open>Decimal digits of a number (\<open>Number.prototype.toString\<close>, template literals).\<close>

definition digitChar :: "nat \<Rightarrow> char" where
  "digitChar d = char_of (48 + d)"

fun toString :: "nat \<Rightarrow> string" where
  "toString n = (if n < 10 then [digitChar n] else toString (n div 10) @ [digitChar (n mod 10)])"

declare toString.simps [simp del]

text \<open>\<open>s.padStart(n, c)\<close> for a one-character pad string.\<close>

definition padStart :: "nat \<Rightarrow> char \<Rightarrow> string \<Rightarrow> string" where
  "padStart n c s = replicate (n - length s) c @ s"

text \<open>\<open>parseInt(s, 10)\<close> on a string of decimal digits.\<close>

definition digitValue :: "char \<Rightarrow> nat" where
  "digitValue c = charCode c - 48"

definition parseInt :: "string \<Rightarrow> nat" where
  "parseInt s = foldl (\<lambda>acc c. 10 * acc + digitValue c) 0 s"

section \<open>Slug generation\<close>

text \<open>
  \<^verbatim>\<open>
  function generateSlug(title: string): string {
      return title
          .toLowerCase()
          .trim()
          .replace(/[^\w\s-]/g, "")
          .replace(/\s+/g, "-")
          .replace(/-+/g, "-")
          .replace(/^-|-$/g, "");
  }
  \<close>
\<close>

definition removeSpecial :: "string \<Rightarrow> string" where
  "removeSpecial s = filter (\<lambda>c. isWordChar c \<or> isSpace c \<or> isHyphen c) s"

definition startsWithHyphen :: "string \<Rightarrow> bool" where
  "startsWithHyphen s = (case s of [] \<Rightarrow> False | c # _ \<Rightarrow> isHyphen c)"

definition endsWithHyphen :: "string \<Rightarrow> bool" where
  "endsWithHyphen s = (case rev s of [] \<Rightarrow> False | c # _ \<Rightarrow> isHyphen c)"

text \<open>
  \<open>s.replace(/^-|-$/g, "")\<close>: a hyphen at the first position is removed, and a hyphen
  at the last position of what remains is removed. (On the one-character string \<open>-\<close>
  the first alternative matches and nothing is left for the second.)
\<close>

definition stripEnds :: "string \<Rightarrow> string" where
  "stripEnds s =
     (let s1 = (if startsWithHyphen s then tl s else s)
      in if endsWithHyphen s1 then butlast s1 else s1)"

definition generateSlug :: "string \<Rightarrow> string" where
  "generateSlug title =
     stripEnds
       (replaceRuns isHyphen ''-''
         (replaceRuns isSpace ''-''
           (removeSpecial (trim (toLowerCase title)))))"

fun noDoubleHyphen :: "string \<Rightarrow> bool" where
  "noDoubleHyphen (a # b # cs) = (\<not> (isHyphen a \<and> isHyphen b) \<and> noDoubleHyphen (b # cs))"
| "noDoubleHyphen _ = True"

section \<open>Date and time normalisation\<close>

text \<open>
  The failures of the persistence layer, under the names the specification gives them:
  \<open>InvalidFormat\<close> is the \<open>Error\<close> thrown by \<open>normalizeDate\<close> and \<open>normalizeTime\<close>,
  \<open>ValidationFailed\<close> a schema validator's rejection, \<open>ReferentialIntegrityViolation\<close>
  the \<open>Error\<close> of the booking hook, \<open>DuplicateBooking\<close> the store's rejection of a
  second booking with the same key of the compound unique index, and \<open>DuplicateKey\<close> its
  rejection under any other unique index.
\<close>

datatype error =
  InvalidFormat | ValidationFailed | ReferentialIntegrityViolation | DuplicateBooking |
  DuplicateKey

text \<open>
  \<^verbatim>\<open>
  function normalizeDate(dateStr: string): string {
      const parsed = new Date(dateStr);
      if (isNaN(parsed.getTime())) {
          throw new Error(`Invalid date format: ${dateStr}`);
      }
      return parsed.toISOString().split("T")[0];
  }
  \<close>
  The \<open>Date\<close> object belongs to the host, not to the repository: how a string is
  parsed depends on the engine and, for most formats, on the host's time zone. It is a
  parameter of the model: \<open>toISOString s\<close> is \<open>None\<close> when \<open>new Date(s)\<close> has
  the time value NaN, and otherwise the string that \<open>toISOString()\<close> returns.
\<close>

definition normalizeDate :: "(string \<Rightarrow> string option) \<Rightarrow> string \<Rightarrow> error + string" where
  "normalizeDate toISOString dateStr =
     (case toISOString dateStr of
        None \<Rightarrow> Inl InvalidFormat
      | Some isoStr \<Rightarrow> Inr (takeWhile (\<lambda>c. c \<noteq> CHR ''T'') isoStr))"

text \<open>
  A host's \<open>Date\<close>, as far as the examples need it, for a host whose local time is
  \<open>tz\<close> minutes ahead of UTC. Two forms of date strings are read: the ISO form
  \<open>YYYY-MM-DD\<close>, which the language standard reads as midnight UTC of that day, and
  the form \<open>Month D, YYYY\<close> with an English month name, which the engines read, by
  their own rules, as midnight of that day in local time. The model host reads nothing
  else; real hosts read more forms, each in its own way.
\<close>

definition monthNames :: "string list" where
  "monthNames = [''January'', ''February'', ''March'', ''April'', ''May'', ''June'', ''July'',
     ''August'', ''September'', ''October'', ''November'', ''December'']"

definition monthNumber :: "string \<Rightarrow> nat option" where
  "monthNumber name = map_of (zip monthNames [1, 2, 3, 4, 5, 6, 7, 8, 9, 10, 11, 12]) name"

definition isLeapYear :: "nat \<Rightarrow> bool" where
  "isLeapYear y = (y mod 4 = 0 \<and> (y mod 100 \<noteq> 0 \<or> y mod 400 = 0))"

definition daysInMonth :: "nat \<Rightarrow> nat \<Rightarrow> nat" where
  "daysInMonth y m =
     (if m = 2 then (if isLeapYear y then 29 else 28)
      else if m \<in> {4, 6, 9, 11} then 30 else 31)"

definition validDate :: "nat \<Rightarrow> nat \<Rightarrow> nat \<Rightarrow> bool" where
  "validDate y m d = (1 \<le> m \<and> m \<le> 12 \<and> 1 \<le> d \<and> d \<le> daysInMonth y m)"

definition parseLongDate :: "string \<Rightarrow> (nat \<times> nat \<times> nat) option" where
  "parseLongDate s =
     (let name = takeWhile (\<lambda>c. c \<noteq> CHR '' '') s;
          afterName = dropWhile (\<lambda>c. c \<noteq> CHR '' '') s;
          ds = takeWhile isDigit (tl afterName);
          afterDay = dropWhile isDigit (tl afterName);
          ys = drop 2 afterDay
      in case monthNumber name of
           None \<Rightarrow> None
         | Some m \<Rightarrow>
             if afterName \<noteq> [] \<and> (length ds = 1 \<or> length ds = 2) \<and> take 2 afterDay = '', '' \<and>
                length ys = 4 \<and> list_all isDigit ys \<and> validDate (parseInt ys) m (parseInt ds)
             then Some (parseInt ys, m, parseInt ds) else None)"

definition parseISODate :: "string \<Rightarrow> (nat \<times> nat \<times> nat) option" where
  "parseISODate s =
     (let ys = take 4 s; ms = take 2 (drop 5 s); ds = drop 8 s
      in if length s = 10 \<and> s ! 4 = CHR ''-'' \<and> s ! 7 = CHR ''-'' \<and>
            list_all isDigit (ys @ ms @ ds) \<and> validDate (parseInt ys) (parseInt ms) (parseInt ds)
         then Some (parseInt ys, parseInt ms, parseInt ds) else None)"

text \<open>
  Days since 1 January 1970 of a day of the Gregorian calendar, and back. The year is
  counted from March, so that the leap day is the last day of its year, in eras of 400
  years, which all have 146097 days.
\<close>

definition daysFromCivil :: "nat \<Rightarrow> nat \<Rightarrow> nat \<Rightarrow> int" where
  "daysFromCivil y m d =
     (let y1 = (if m \<le> 2 then int y - 1 else int y);
          era = y1 div 400;
          yoe = y1 - era * 400;
          doy = (153 * (if 2 < m then int m - 3 else int m + 9) + 2) div 5 + int d - 1;
          doe = yoe * 365 + yoe div 4 - yoe div 100 + doy
      in era * 146097 + doe - 719468)"

definition civilFromDays :: "int \<Rightarrow> int \<times> int \<times> int" where
  "civilFromDays days =
     (let z = days + 719468;
          era = z div 146097;
          doe = z - era * 146097;
          yoe = (doe - doe div 1460 + doe div 36524 - doe div 146096) div 365;
          doy = doe - (365 * yoe + yoe div 4 - yoe div 100);
          mp = (5 * doy + 2) div 153;
          d = doy - (153 * mp + 2) div 5 + 1;
          m = (if mp < 10 then mp + 3 else mp - 9);
          y = yoe + era * 400
      in (if m \<le> 2 then y + 1 else y, m, d))"

text \<open>
  The time value of \<open>new Date(s)\<close> in milliseconds since the epoch, \<open>None\<close> for NaN.
  Local midnight is \<open>tz\<close> minutes before midnight UTC of the same calendar day.
\<close>

definition msPerDay :: int where
  "msPerDay = 86400000"

definition parseDate :: "int \<Rightarrow> string \<Rightarrow> int option" where
  "parseDate tz s =
     (case parseISODate s of
        Some (y, m, d) \<Rightarrow> Some (daysFromCivil y m d * msPerDay)
      | None \<Rightarrow>
          (case parseLongDate s of
             Some (y, m, d) \<Rightarrow> Some (daysFromCivil y m d * msPerDay - tz * 60000)
           | None \<Rightarrow> None))"

text \<open>
  \<open>toISOString()\<close>: the instant in UTC, as \<open>YYYY-MM-DDTHH:mm:ss.sssZ\<close>, with a sign
  and six digits for a year outside 0..9999.
\<close>

definition pad :: "nat \<Rightarrow> int \<Rightarrow> string" where
  "pad n k = padStart n CHR ''0'' (toString (nat k))"

definition isoYear :: "int \<Rightarrow> string" where
  "isoYear y =
     (if 0 \<le> y \<and> y \<le> 9999 then pad 4 y
      else (if y < 0 then ''-'' else ''+'') @ pad 6 \<bar>y\<bar>)"

definition isoString :: "int \<Rightarrow> string" where
  "isoString t =
     (let (y, m, d) = civilFromDays (t div msPerDay);
          ms = t mod msPerDay
      in isoYear y @ ''-'' @ pad 2 m @ ''-'' @ pad 2 d @ ''T'' @
         pad 2 (ms div 3600000) @ '':'' @ pad 2 (ms mod 3600000 div 60000) @ '':'' @
         pad 2 (ms mod 60000 div 1000) @ ''.'' @ pad 3 (ms mod 1000) @ ''Z'')"

text \<open>The parameter of \<open>normalizeDate\<close> on this host.\<close>

definition hostToISOString :: "int \<Rightarrow> string \<Rightarrow> string option" where
  "hostToISOString tz s = map_option isoString (parseDate tz s)"

text \<open>
  The common prefix \<open>^(\d{1,2}):(\d{2})\<close> of the two time patterns. The hour group is
  followed by a colon, so it is the whole run of digits the string starts with, which
  must be one or two digits long. The result holds the two groups and the rest of
  the string.
\<close>

definition timePrefix :: "string \<Rightarrow> (string \<times> string \<times> string) option" where
  "timePrefix s =
     (let hs = takeWhile isDigit s in
      if length hs = 1 \<or> length hs = 2 then
        (case dropWhile isDigit s of
           c # m1 # m2 # rest \<Rightarrow>
             if c = CHR '':'' \<and> isDigit m1 \<and> isDigit m2 then Some (hs, [m1, m2], rest) else None
         | _ \<Rightarrow> None)
      else None)"

text \<open>\<open>trimmed.match(/^(\d{1,2}):(\d{2})$/)\<close>\<close>

definition match24 :: "string \<Rightarrow> (string \<times> string) option" where
  "match24 s =
     (case timePrefix s of
        Some (h, m, rest) \<Rightarrow> if rest = [] then Some (h, m) else None
      | None \<Rightarrow> None)"

text \<open>\<open>trimmed.match(/^(\d{1,2}):(\d{2})\s*(AM|PM)$/)\<close>\<close>

definition match12 :: "string \<Rightarrow> (string \<times> string \<times> string) option" where
  "match12 s =
     (case timePrefix s of
        Some (h, m, rest) \<Rightarrow>
          (let period = dropWhile isSpace rest
           in if period = ''AM'' \<or> period = ''PM'' then Some (h, m, period) else None)
      | None \<Rightarrow> None)"

text \<open>
  \<^verbatim>\<open>
  const time24Match = trimmed.match(/^(\d{1,2}):(\d{2})$/);
  if (time24Match) {
      const hours = parseInt(time24Match[1], 10);
      const minutes = time24Match[2];
      if (hours >= 0 && hours <= 23) {
          return `${hours.toString().padStart(2, "0")}:${minutes}`;
      }
  }
  \<close>
  \<open>time24 trimmed\<close> is \<open>Some r\<close> when this block returns \<open>r\<close> and \<open>None\<close> when
  control falls through to the twelve-hour pattern.
\<close>

definition time24 :: "string \<Rightarrow> string option" where
  "time24 trimmed =
     (case match24 trimmed of
        Some (h, minutes) \<Rightarrow>
          (let hours = parseInt h
           in if 0 \<le> hours \<and> hours \<le> 23
              then Some (padStart 2 CHR ''0'' (toString hours) @ '':'' @ minutes)
              else None)
      | None \<Rightarrow> None)"

text \<open>
  \<^verbatim>\<open>
  const time12Match = trimmed.match(/^(\d{1,2}):(\d{2})\s*(AM|PM)$/);
  if (time12Match) {
      let hours = parseInt(time12Match[1], 10);
      const minutes = time12Match[2];
      const period = time12Match[3];
      if (period === "PM" && hours !== 12) {
          hours += 12;
      } else if (period === "AM" && hours === 12) {
          hours = 0;
      }
      return `${hours.toString().padStart(2, "0")}:${minutes}`;
  }
  \<close>
\<close>

definition time12 :: "string \<Rightarrow> string option" where
  "time12 trimmed =
     (case match12 trimmed of
        Some (h, minutes, period) \<Rightarrow>
          (let hours0 = parseInt h;
               hours = (if period = ''PM'' \<and> hours0 \<noteq> 12 then hours0 + 12
                        else if period = ''AM'' \<and> hours0 = 12 then 0
                        else hours0)
           in Some (padStart 2 CHR ''0'' (toString hours) @ '':'' @ minutes))
      | None \<Rightarrow> None)"

text \<open>
  \<open>normalizeTime\<close>: the input is trimmed and upper-cased, the two blocks are tried in
  order, and the function throws when neither returns.
\<close>

definition normalizeTime :: "string \<Rightarrow> error + string" where
  "normalizeTime timeStr =
     (let trimmed = toUpperCase (trim timeStr)
      in case time24 trimmed of
           Some r \<Rightarrow> Inr r
         | None \<Rightarrow> (case time12 trimmed of Some r \<Rightarrow> Inr r | None \<Rightarrow> Inl InvalidFormat))"

text \<open>
  The reading of a clock time that the specification gives: an hour \<open>h\<close> of the
  twelve-hour clock is the hour \<open>h mod 12\<close> before noon and twelve hours later after
  noon, and a canonical time shows the hour and the minute with two digits each.
\<close>

datatype period = AM | PM

definition hour24 :: "nat \<Rightarrow> period \<Rightarrow> nat" where
  "hour24 h p = h mod 12 + (case p of AM \<Rightarrow> 0 | PM \<Rightarrow> 12)"

definition twoDigits :: "nat \<Rightarrow> string" where
  "twoDigits n = [digitChar (n div 10), digitChar (n mod 10)]"

definition canonicalTime :: "nat \<Rightarrow> nat \<Rightarrow> string" where
  "canonicalTime h m = twoDigits h @ '':'' @ twoDigits m"

text \<open>The spellings of a period that the pattern accepts after upper-casing.\<close>

fun periodForms :: "period \<Rightarrow> string list" where
  "periodForms AM = [''AM'', ''am'', ''Am'', ''aM'']"
| "periodForms PM = [''PM'', ''pm'', ''Pm'', ''pM'']"

section \<open>Events\<close>

text \<open>
  The fields of \<open>IEvent\<close>. \<open>docId\<close> is the document's \<open>_id\<close> and \<open>imageUrl\<close> its
  \<open>image\<close>; the two time stamps, which the store manages, are left out.
\<close>

record event =
  docId :: nat
  title :: string
  slug :: string
  description :: string
  overview :: string
  imageUrl :: string
  venue :: string
  location :: string
  date :: string
  time :: string
  mode :: string
  audience :: string
  agenda :: "string list"
  organizer :: string
  tags :: "string list"

text \<open>
  The condition of the loop, \<open>await Event.findOne({ slug, _id: { $ne: this._id } })\<close>:
  some stored event other than the document being saved has the slug.
\<close>

definition slugInUse :: "event list \<Rightarrow> nat \<Rightarrow> string \<Rightarrow> bool" where
  "slugInUse evs thisId s = (find (\<lambda>e. slug e = s \<and> docId e \<noteq> thisId) evs \<noteq> None)"

text \<open>
  The loop ends because the store is finite: a slug in use is no longer than the longest
  stored slug, and the candidates grow with the counter.
\<close>

definition maxSlugLength :: "event list \<Rightarrow> nat" where
  "maxSlugLength evs = fold max (map (\<lambda>e. length (slug e)) evs) 0"

lemma toString_bound: "n < 10 ^ length (toString n)"
proof (induction n rule: toString.induct)
  case (1 n)
  show ?case
  proof (cases "n < 10")
    case True
    then show ?thesis by (simp add: toString.simps)
  next
    case False
    with 1 have "n div 10 < 10 ^ length (toString (n div 10))" by simp
    then have "n < 10 * 10 ^ length (toString (n div 10))"
      by (simp add: div_less_iff_less_mult mult.commute)
    with False show ?thesis by (simp add: toString.simps [of n])
  qed
qed

lemma fold_max_ge: "a \<le> fold max xs (a::nat)"
  by (induction xs arbitrary: a) (auto intro: order_trans [OF max.cobounded2])

lemma fold_max_mem: "x \<in> set xs \<Longrightarrow> x \<le> fold max xs (a::nat)"
proof (induction xs arbitrary: a)
  case Nil
  then show ?case by simp
next
  case (Cons y ys)
  show ?case
  proof (cases "x = y")
    case True
    have "max y a \<le> fold max ys (max y a)" by (rule fold_max_ge)
    with True show ?thesis by simp
  next
    case False
    with Cons show ?thesis by simp
  qed
qed

lemma slugInUse_length: "slugInUse evs i s \<Longrightarrow> length s \<le> maxSlugLength evs"
  by (auto simp: slugInUse_def maxSlugLength_def find_None_iff intro!: fold_max_mem)

lemma slugInUse_counter:
  assumes "slugInUse evs i (b @ ''-'' @ toString c)"
  shows "c < 10 ^ maxSlugLength evs"
proof -
  have "length (toString c) \<le> maxSlugLength evs"
    using slugInUse_length [OF assms] by simp
  then have "(10::nat) ^ length (toString c) \<le> 10 ^ maxSlugLength evs"
    by (simp add: power_increasing)
  with toString_bound [of c] show ?thesis by (rule less_le_trans)
qed

text \<open>
  \<^verbatim>\<open>
  let slug = baseSlug;
  let counter = 1;
  while (await Event.findOne({ slug, _id: { $ne: this._id } })) {
      slug = `${baseSlug}-${counter}`;
      counter++;
  }
  \<close>
  \<open>uniqueSlug evs thisId baseSlug cur counter\<close> is the value of \<open>slug\<close> when the loop
  ends, started with \<open>slug = cur\<close> and the given counter.
\<close>

function uniqueSlug :: "event list \<Rightarrow> nat \<Rightarrow> string \<Rightarrow> string \<Rightarrow> nat \<Rightarrow> string" where
  "uniqueSlug evs thisId baseSlug cur counter =
     (if slugInUse evs thisId cur
      then uniqueSlug evs thisId baseSlug (baseSlug @ ''-'' @ toString counter) (counter + 1)
      else cur)"
  by pat_completeness auto
termination
proof (relation "measure (\<lambda>(evs, thisId, baseSlug, cur, counter).
          2 * (10 ^ maxSlugLength evs - counter) + (if slugInUse evs thisId cur then 1 else 0))")
  show "wf (measure (\<lambda>(evs, thisId, baseSlug, cur, counter).
          2 * (10 ^ maxSlugLength evs - counter) + (if slugInUse evs thisId cur then 1 else 0)))"
    by simp
next
  fix evs :: "event list" and thisId baseSlug cur counter
  assume "slugInUse evs thisId cur"
  then show "((evs, thisId, baseSlug, baseSlug @ ''-'' @ toString counter, counter + 1),
              (evs, thisId, baseSlug, cur, counter))
             \<in> measure (\<lambda>(evs, thisId, baseSlug, cur, counter).
          2 * (10 ^ maxSlugLength evs - counter) + (if slugInUse evs thisId cur then 1 else 0))"
    using slugInUse_counter [of evs thisId baseSlug counter]
    by auto
qed

declare uniqueSlug.simps [simp del]

text \<open>
  \<^verbatim>\<open>
  EventSchema.pre("save", async function () {
      if (this.isModified("title") || this.isNew) {
          const baseSlug = generateSlug(this.title);
          ...
          this.slug = slug;
      }
      if (this.isModified("date") || this.isNew) {
          this.date = normalizeDate(this.date);
      }
      if (this.isModified("time") || this.isNew) {
          this.time = normalizeTime(this.time);
      }
  });
  \<close>
  The hook receives the stored events, the document and what the document library knows
  of it: whether it is new, and which of its paths have been modified since it was
  loaded. A thrown error is the result \<open>Inl\<close>, and then nothing is saved.
\<close>

definition eventPreSave ::
  "(string \<Rightarrow> string option) \<Rightarrow> event list \<Rightarrow> bool \<Rightarrow> (string \<Rightarrow> bool) \<Rightarrow> event
     \<Rightarrow> error + event" where
  "eventPreSave toISOString evs isNew isModified this =
     (let this1 =
        (if isModified ''title'' \<or> isNew
         then (let baseSlug = generateSlug (title this)
               in this\<lparr>slug := uniqueSlug evs (docId this) baseSlug baseSlug 1\<rparr>)
         else this)
      in case (if isModified ''date'' \<or> isNew
               then (case normalizeDate toISOString (date this1) of
                       Inl e \<Rightarrow> Inl e
                     | Inr d \<Rightarrow> Inr (this1\<lparr>date := d\<rparr>))
               else Inr this1) of
           Inl e \<Rightarrow> Inl e
         | Inr this2 \<Rightarrow>
             (if isModified ''time'' \<or> isNew
              then (case normalizeTime (time this2) of
                      Inl e \<Rightarrow> Inl e
                    | Inr t \<Rightarrow> Inr (this2\<lparr>time := t\<rparr>))
              else Inr this2))"

text \<open>
  Modelled from the spec: the document store, which is not code of the repository. A
  new document is inserted unless a unique index rejects it; the event schema declares
  one on \<open>slug\<close> (\<open>unique: true\<close>), and \<open>_id\<close> always has one.
\<close>

definition insertEvent :: "event list \<Rightarrow> event \<Rightarrow> (error + event) \<times> event list" where
  "insertEvent evs doc =
     (if find (\<lambda>e. docId e = docId doc \<or> slug e = slug doc) evs \<noteq> None
      then (Inl DuplicateKey, evs)
      else (Inr doc, evs @ [doc]))"

text \<open>
  What the schema declares for the fields: \<open>trim: true\<close> on the title and the other
  text fields; \<open>required\<close>, which a string passes when it is not empty;
  \<open>minlength: 3\<close> on the title; the three values of \<open>mode\<close>; and at least one item
  in the agenda and in the tags.
\<close>

definition eventSetters :: "event \<Rightarrow> event" where
  "eventSetters doc =
     doc\<lparr>title := trim (title doc), description := trim (description doc),
         overview := trim (overview doc), imageUrl := trim (imageUrl doc),
         venue := trim (venue doc), location := trim (location doc),
         audience := trim (audience doc), organizer := trim (organizer doc)\<rparr>"

definition validEvent :: "event \<Rightarrow> bool" where
  "validEvent doc =
     (title doc \<noteq> [] \<and> 3 \<le> length (title doc) \<and> description doc \<noteq> [] \<and>
      overview doc \<noteq> [] \<and> imageUrl doc \<noteq> [] \<and> venue doc \<noteq> [] \<and> location doc \<noteq> [] \<and>
      date doc \<noteq> [] \<and> time doc \<noteq> [] \<and> mode doc \<in> set [''online'', ''offline'', ''hybrid''] \<and>
      audience doc \<noteq> [] \<and> agenda doc \<noteq> [] \<and> organizer doc \<noteq> [] \<and> tags doc \<noteq> [])"

text \<open>
  \<open>Event.create(doc)\<close>, as the route handler of \<open>POST /api/events\<close> calls it: the
  setters are applied, the validators run, then the hook, and the document is inserted
  when none of them rejects it. The result is the outcome together with the stored
  events afterwards.
\<close>

definition Event_create ::
  "(string \<Rightarrow> string option) \<Rightarrow> event list \<Rightarrow> event \<Rightarrow> (error + event) \<times> event list" where
  "Event_create toISOString evs doc =
     (let this = eventSetters doc
      in if \<not> validEvent this then (Inl ValidationFailed, evs)
         else (case eventPreSave toISOString evs True (\<lambda>path. True) this of
                 Inl e \<Rightarrow> (Inl e, evs)
               | Inr doc' \<Rightarrow> insertEvent evs doc'))"

text \<open>
  \<^verbatim>\<open>
  export const getSimilarEventsBySlug = async (slug: string) => {
      try {
          await dbConnect();
          const event = await Event.findOne({ slug })
          return await Event.find({ _id: { $ne: event?._id },
                                    tags: { $in: event?.tags } }).lean();
      } catch {
          return [];
      }
  }
  \<close>
  Modelled from the spec: the query of the document store. \<open>tags: { $in: ts }\<close> selects
  the documents with at least one tag among \<open>ts\<close>, and \<open>_id: { $ne: i }\<close> those with
  another identifier. When no event has the slug both operands are \<open>undefined\<close>, and
  such a query selects no stored event: either it is rejected, since \<open>$in\<close> needs a
  list, and the \<open>catch\<close> block returns the empty list, or the tags are compared with
  the missing value, which is no tag of a stored event. The model takes the first
  reading; the result is the same under the second.
\<close>

datatype queryError = OperandNotAList

definition findSimilar ::
  "nat option \<Rightarrow> string list option \<Rightarrow> event list \<Rightarrow> queryError + event list" where
  "findSimilar neId inTags evs =
     (case inTags of
        None \<Rightarrow> Inl OperandNotAList
      | Some ts \<Rightarrow>
          Inr (filter (\<lambda>e. (case neId of None \<Rightarrow> True | Some i \<Rightarrow> docId e \<noteq> i) \<and>
                           list_ex (\<lambda>t. t \<in> set ts) (tags e)) evs))"

definition getSimilarEventsBySlug :: "event list \<Rightarrow> string \<Rightarrow> event list" where
  "getSimilarEventsBySlug evs s =
     (let ev = find (\<lambda>e. slug e = s) evs
      in case findSimilar (map_option docId ev) (map_option tags ev) evs of
           Inl err \<Rightarrow> []
         | Inr found \<Rightarrow> found)"

section \<open>Bookings\<close>

text \<open>The fields of \<open>IBooking\<close>, without the time stamps.\<close>

record booking =
  eventId :: nat
  email :: string

text \<open>
  \<open>EMAIL_REGEX = /^[^\s@]+@[^\s@]+\.[^\s@]+$/\<close>: a non-empty part without white space
  before the first \<open>@\<close>, and after it a part without white space or \<open>@\<close> in which some
  dot is neither the first nor the last character.
\<close>

definition emailChar :: "char \<Rightarrow> bool" where
  "emailChar c = (\<not> isSpace c \<and> c \<noteq> CHR ''@'')"

definition validEmail :: "string \<Rightarrow> bool" where
  "validEmail s =
     (let name = takeWhile (\<lambda>c. c \<noteq> CHR ''@'') s;
          rest = dropWhile (\<lambda>c. c \<noteq> CHR ''@'') s;
          host = tl rest
      in name \<noteq> [] \<and> list_all emailChar name \<and> rest \<noteq> [] \<and> list_all emailChar host \<and>
         list_ex (\<lambda>i. host ! i = CHR ''.'') [1 ..< length host - 1])"

text \<open>The setters of the \<open>email\<close> path: \<open>trim: true\<close> and \<open>lowercase: true\<close>.\<close>

definition emailSetters :: "string \<Rightarrow> string" where
  "emailSetters s = toLowerCase (trim s)"

text \<open>
  \<^verbatim>\<open>
  BookingSchema.pre("save", async function (next) {
      if (this.isModified("eventId") || this.isNew) {
          const eventExists = await Event.findById(this.eventId);
          if (!eventExists) {
              const error = new Error(`Event with ID ${this.eventId} does not exist. ...`);
              return next(error);
          }
      }
      next();
  });
  \<close>
  \<open>next(error)\<close> makes the save fail with the error, and \<open>next()\<close> lets it go on.
\<close>

definition bookingPreSave ::
  "event list \<Rightarrow> bool \<Rightarrow> (string \<Rightarrow> bool) \<Rightarrow> booking \<Rightarrow> error + booking" where
  "bookingPreSave evs isNew isModified this =
     (if isModified ''eventId'' \<or> isNew
      then (case find (\<lambda>e. docId e = eventId this) evs of
              None \<Rightarrow> Inl ReferentialIntegrityViolation
            | Some eventExists \<Rightarrow> Inr this)
      else Inr this)"

text \<open>
  Modelled from the spec: the document store's insertion under the index
  \<open>BookingSchema.index({ eventId: 1, email: 1 }, { unique: true })\<close>. A booking whose
  pair of event and address is already stored is rejected, and the store is unchanged.
\<close>

definition insertBooking :: "booking list \<Rightarrow> booking \<Rightarrow> (error + booking) \<times> booking list" where
  "insertBooking bs doc =
     (if find (\<lambda>b. eventId b = eventId doc \<and> email b = email doc) bs \<noteq> None
      then (Inl DuplicateBooking, bs)
      else (Inr doc, bs @ [doc]))"

text \<open>
  \<open>Booking.create({ eventId, email })\<close>, the creation of a booking through the model
  (the booking form reaches it through the action \<open>createBooking\<close>): the setters of the
  schema are applied, its validator is run on the result, then the hook, and the
  document is inserted. The result is the outcome together with the stored bookings
  afterwards.
\<close>

definition Booking_create ::
  "event list \<Rightarrow> booking list \<Rightarrow> nat \<Rightarrow> string \<Rightarrow> (error + booking) \<times> booking list" where
  "Booking_create evs bs eid addr =
     (let doc = \<lparr>eventId = eid, email = emailSetters addr\<rparr>
      in if \<not> validEmail (email doc) then (Inl ValidationFailed, bs)
         else (case bookingPreSave evs True (\<lambda>path. True) doc of
                 Inl e \<Rightarrow> (Inl e, bs)
               | Inr doc' \<Rightarrow> insertBooking bs doc'))"

section \<open>Sample data\<close>

text \<open>
  Concrete inputs for the examples. Of the host's \<open>Date\<close> only one fact is used: a date
  in the ISO form \<open>YYYY-MM-DD\<close> is read as midnight UTC of that day.
\<close>

definition sampleToISOString :: "string \<Rightarrow> string option" where
  "sampleToISOString s =
     (if s = ''2025-03-03'' then Some ''2025-03-03T00:00:00.000Z'' else None)"

definition devConEvent :: "nat \<Rightarrow> event" where
  "devConEvent i =
     \<lparr>docId = i, title = ''DevCon'', slug = '''', description = ''A developer conference'',
      overview = ''Talks and workshops'', imageUrl = ''https://example.org/devcon.png'',
      venue = ''Main Hall'', location = ''Istanbul'', date = ''2025-03-03'',
      time = ''2:30 PM'', mode = ''offline'', audience = ''Developers'',
      agenda = [''Keynote''], organizer = ''DevEvent'', tags = [''ai'', ''cloud'']\<rparr>"

definition storedDevCon :: event where
  "storedDevCon =
     (devConEvent 101)\<lparr>slug := ''devcon'', date := ''2025-03-03'', time := ''14:30''\<rparr>"

definition taggedEvent :: "nat \<Rightarrow> string \<Rightarrow> string list \<Rightarrow> event" where
  "taggedEvent i s ts = (devConEvent i)\<lparr>slug := s, tags := ts\<rparr>"

section \<open>Evaluation of characters\<close>

lemma char_of_eq_code [simp]: "char_of (n::nat) = c \<longleftrightarrow> n mod 256 = charCode c"
  by (simp add: char_of_eq_iff take_bit_eq_mod charCode_def)

lemma char_eq_char_of [simp]: "c = char_of (n::nat) \<longleftrightarrow> charCode c = n mod 256"
  using char_of_eq_code [of n c] by (simp only: eq_commute)

lemma charCode_char_of [simp]: "charCode (char_of (n::nat)) = n mod 256"
  by (simp add: charCode_def)

lemma charCode_Char [simp]:
  "charCode (Char b0 b1 b2 b3 b4 b5 b6 b7) =
     of_bool b0 + 2 * (of_bool b1 + 2 * (of_bool b2 + 2 * (of_bool b3 + 2 * (of_bool b4 +
       2 * (of_bool b5 + 2 * (of_bool b6 + 2 * of_bool b7))))))"
  by (simp add: charCode_def)

section \<open>The shape of a slug\<close>

lemma charCode_inj: "charCode a = charCode b \<longleftrightarrow> a = b"
  by (simp add: charCode_def)

lemma mem_set_charCode: "c \<in> set s \<longleftrightarrow> charCode c \<in> set (map charCode s)"
  by (auto simp: charCode_inj)

lemma lower_in_alphabet:
  assumes "97 \<le> charCode c" and "charCode c \<le> 122"
  shows "c \<in> set ''abcdefghijklmnopqrstuvwxyz0123456789_-''"
proof -
  from assms have "charCode c \<in> set (map charCode ''abcdefghijklmnopqrstuvwxyz'')"
    by simp presburger
  then show ?thesis
    by (subst mem_set_charCode) auto
qed

lemma digit_in_alphabet:
  assumes "isDigit c"
  shows "c \<in> set ''abcdefghijklmnopqrstuvwxyz0123456789_-''"
proof -
  from assms have "charCode c \<in> set (map charCode ''0123456789'')"
    unfolding isDigit_def by simp presburger
  then show ?thesis
    by (subst mem_set_charCode) auto
qed

lemma underscore_in_alphabet:
  assumes "charCode c = 95"
  shows "c \<in> set ''abcdefghijklmnopqrstuvwxyz0123456789_-''"
  using assms by (subst mem_set_charCode) auto

lemma toLowerChar_not_upper:
  "\<not> (65 \<le> charCode (toLowerChar c) \<and> charCode (toLowerChar c) \<le> 90)"
  by (auto simp: toLowerChar_def Let_def)

lemma set_trim: "set (trim s) \<subseteq> set s"
  by (auto simp: trim_def dest!: set_dropWhileD)

lemma set_replaceRuns: "set (replaceRuns p r s) \<subseteq> {c \<in> set s. \<not> p c} \<union> set r"
  by (induction p r s rule: replaceRuns.induct) (auto dest: set_dropWhileD)

lemma set_stripEnds: "set (stripEnds s) \<subseteq> set s"
proof -
  have a: "set (tl xs) \<subseteq> set xs" for xs :: string by (cases xs) auto
  have b: "set (butlast xs) \<subseteq> set xs" for xs :: string by (auto dest: in_set_butlastD)
  show ?thesis using a [of s] b [of s] b [of "tl s"]
    by (auto simp: stripEnds_def Let_def)
qed

lemma generateSlug_chars:
  assumes "c \<in> set (generateSlug t)"
  shows "c \<in> set ''abcdefghijklmnopqrstuvwxyz0123456789_-''"
proof -
  let ?a = "removeSpecial (trim (toLowerCase t))"
  let ?b = "replaceRuns isSpace ''-'' ?a"
  let ?c = "replaceRuns isHyphen ''-'' ?b"
  from assms have "c \<in> set ?c"
    using set_stripEnds [of ?c] by (auto simp: generateSlug_def)
  then have "c \<in> set ?b \<or> c = CHR ''-''"
    using set_replaceRuns [of isHyphen "''-''" ?b] by auto
  then have "(c \<in> set ?a \<and> \<not> isSpace c) \<or> c = CHR ''-''"
    using set_replaceRuns [of isSpace "''-''" ?a] by auto
  then consider "c = CHR ''-''" | "c \<in> set ?a" "\<not> isSpace c" "c \<noteq> CHR ''-''" by blast
  then show ?thesis
  proof cases
    case 1
    then show ?thesis by simp
  next
    case 2
    then have w: "isWordChar c" and "c \<in> set (trim (toLowerCase t))"
      by (auto simp: removeSpecial_def isHyphen_def)
    then have "c \<in> set (toLowerCase t)" using set_trim by blast
    then obtain d where "c = toLowerChar d" by (auto simp: toLowerCase_def)
    then have "\<not> (65 \<le> charCode c \<and> charCode c \<le> 90)"
      using toLowerChar_not_upper by simp
    with w show ?thesis
      unfolding isWordChar_def
      using lower_in_alphabet digit_in_alphabet underscore_in_alphabet by blast
  qed
qed

lemma alphabet_lower:
  assumes "c \<in> set ''abcdefghijklmnopqrstuvwxyz0123456789_-''"
  shows "toLowerChar c = c"
proof -
  from assms have "charCode c \<in> set (map charCode ''abcdefghijklmnopqrstuvwxyz0123456789_-'')"
    by (simp only: mem_set_charCode [symmetric])
  then have "\<not> (65 \<le> charCode c \<and> charCode c \<le> 90)" and "charCode c < 192"
    by auto
  then show ?thesis by (simp add: toLowerChar_def Let_def)
qed

lemma generateSlug_lower: "toLowerCase (generateSlug t) = generateSlug t"
  unfolding toLowerCase_def
  by (rule map_idI) (rule alphabet_lower, rule generateSlug_chars)

lemma replaceRuns_head:
  "\<not> startsWithHyphen (replaceRuns isHyphen r (dropWhile isHyphen cs))"
  by (induction cs) (auto simp: startsWithHyphen_def)

lemma noDoubleHyphen_Cons:
  "noDoubleHyphen s \<Longrightarrow> \<not> isHyphen c \<or> \<not> startsWithHyphen s \<Longrightarrow> noDoubleHyphen (c # s)"
  by (cases s) (auto simp: startsWithHyphen_def)

lemma noDoubleHyphen_replaceRuns: "noDoubleHyphen (replaceRuns isHyphen ''-'' s)"
proof (induction "isHyphen" "''-''" s rule: replaceRuns.induct)
  case 1
  show ?case by simp
next
  case (2 c cs)
  show ?case
  proof (cases "isHyphen c")
    case True
    with 2 show ?thesis
      using replaceRuns_head [of "''-''" cs] by (simp add: noDoubleHyphen_Cons)
  next
    case False
    with 2 show ?thesis by (simp add: noDoubleHyphen_Cons)
  qed
qed

lemma noDoubleHyphen_append: "\<not> noDoubleHyphen (xs @ ''--'' @ ys)"
proof (induction xs)
  case Nil
  show ?case by (simp add: isHyphen_def)
next
  case (Cons x xs)
  then show ?case by (cases xs) auto
qed

lemma startsWithHyphen_iff: "startsWithHyphen s \<longleftrightarrow> (\<exists>ys. s = ''-'' @ ys)"
  by (cases s) (auto simp: startsWithHyphen_def isHyphen_def)

lemma endsWithHyphen_iff: "endsWithHyphen s \<longleftrightarrow> (\<exists>xs. s = xs @ ''-'')"
  by (cases s rule: rev_cases) (auto simp: endsWithHyphen_def isHyphen_def)

lemma noDoubleHyphen_tl: "noDoubleHyphen s \<Longrightarrow> noDoubleHyphen (tl s)"
  by (cases s rule: noDoubleHyphen.cases) auto

lemma noDoubleHyphen_butlast: "noDoubleHyphen s \<Longrightarrow> noDoubleHyphen (butlast s)"
  by (induction s rule: noDoubleHyphen.induct) (auto split: if_splits)

lemma noDoubleHyphen_start_tl:
  "noDoubleHyphen s \<Longrightarrow> startsWithHyphen s \<Longrightarrow> \<not> startsWithHyphen (tl s)"
  by (cases s rule: noDoubleHyphen.cases) (auto simp: startsWithHyphen_def)

lemma noDoubleHyphen_end_butlast:
  assumes "noDoubleHyphen s" and "endsWithHyphen s"
  shows "\<not> endsWithHyphen (butlast s)"
proof
  assume "endsWithHyphen (butlast s)"
  then obtain xs where b: "butlast s = xs @ ''-''" by (auto simp: endsWithHyphen_iff)
  from assms(2) obtain zs where s: "s = zs @ ''-''" by (auto simp: endsWithHyphen_iff)
  with b have "s = xs @ ''--'' @ []" by simp
  with assms(1) noDoubleHyphen_append [of xs "[]"] show False by simp
qed

lemma startsWithHyphen_butlast:
  "\<not> startsWithHyphen s \<Longrightarrow> \<not> startsWithHyphen (butlast s)"
  by (cases s) (auto simp: startsWithHyphen_def)

lemma stripEnds_shape:
  assumes "noDoubleHyphen s"
  shows "noDoubleHyphen (stripEnds s) \<and> \<not> startsWithHyphen (stripEnds s) \<and>
         \<not> endsWithHyphen (stripEnds s)"
  using assms
  by (auto simp: stripEnds_def Let_def noDoubleHyphen_tl noDoubleHyphen_butlast
      noDoubleHyphen_start_tl noDoubleHyphen_end_butlast startsWithHyphen_butlast)

lemmas slug_defs = generateSlug_def stripEnds_def startsWithHyphen_def endsWithHyphen_def
  removeSpecial_def trim_def toLowerCase_def toLowerChar_def isHyphen_def isSpace_def
  isWordChar_def isDigit_def

text \<open>
  Claim C1, as the code has it: for every title, the slug is in lower case (lower-casing
  it again changes nothing), it consists of the letters a to z, digits, underscores and
  hyphens only (the class \<open>\w\<close> that the third step keeps contains the underscore),
  it neither starts nor ends with a hyphen, and it has no two hyphens in a row.
\<close>

theorem generateSlug_shape:
  "toLowerCase (generateSlug t) = generateSlug t \<and>
   set (generateSlug t) \<subseteq> set ''abcdefghijklmnopqrstuvwxyz0123456789_-'' \<and>
   (\<nexists>ys. generateSlug t = ''-'' @ ys) \<and>
   (\<nexists>xs. generateSlug t = xs @ ''-'') \<and>
   (\<nexists>xs ys. generateSlug t = xs @ ''--'' @ ys)"
proof -
  have n: "noDoubleHyphen (replaceRuns isHyphen ''-''
             (replaceRuns isSpace ''-'' (removeSpecial (trim (toLowerCase t)))))"
    by (rule noDoubleHyphen_replaceRuns)
  have s: "noDoubleHyphen (generateSlug t) \<and> \<not> startsWithHyphen (generateSlug t) \<and>
           \<not> endsWithHyphen (generateSlug t)"
    unfolding generateSlug_def by (rule stripEnds_shape [OF n])
  have d: "\<nexists>xs ys. generateSlug t = xs @ ''--'' @ ys"
    using s noDoubleHyphen_append by metis
  have a: "\<nexists>ys. generateSlug t = ''-'' @ ys"
    using s unfolding startsWithHyphen_iff by blast
  have b: "\<nexists>xs. generateSlug t = xs @ ''-''"
    using s unfolding endsWithHyphen_iff by blast
  have c: "set (generateSlug t) \<subseteq> set ''abcdefghijklmnopqrstuvwxyz0123456789_-''"
    by (rule subsetI) (rule generateSlug_chars)
  from generateSlug_lower c a b d show ?thesis by (intro conjI)
qed

text \<open>
  Claim C1, as it is written, excludes every character outside \<open>[a-z0-9-]\<close>. The title
  \<open>a_b\<close> is its own slug, and the underscore is outside that set.
\<close>

theorem generateSlug_keeps_underscore:
  "generateSlug ''a_b'' = ''a_b'' \<and>
   \<not> set (generateSlug ''a_b'') \<subseteq> set ''abcdefghijklmnopqrstuvwxyz0123456789-''"
  by (simp add: slug_defs)

text \<open>The example of the specification.\<close>

lemma generateSlug_example: "generateSlug ''Hello, World!  2025'' = ''hello-world-2025''"
  by (simp add: slug_defs)

section \<open>Normalised dates\<close>

text \<open>
  What \<open>normalizeDate\<close> adds to the host's \<open>Date\<close>: it fails exactly when the host
  cannot read the string, and otherwise returns the host's ISO string up to its
  \<open>T\<close>. Which strings the host can read, and as which day, is the host's matter.
\<close>

lemma normalizeDate_host:
  "(normalizeDate toISOString s = Inl InvalidFormat \<longleftrightarrow> toISOString s = None) \<and>
   (\<forall>d r. toISOString s = Some (d @ ''T'' @ r) \<and> CHR ''T'' \<notin> set d \<longrightarrow>
      normalizeDate toISOString s = Inr d)"
proof -
  have "takeWhile (\<lambda>c. c \<noteq> CHR ''T'') (d @ ''T'' @ r) = d" if "CHR ''T'' \<notin> set d" for d r
  proof -
    from that have "\<forall>c \<in> set d. c \<noteq> CHR ''T''" by auto
    then show ?thesis by simp
  qed
  then show ?thesis
    by (auto simp: normalizeDate_def split: option.splits)
qed

section \<open>Normalised times\<close>

lemma isDigit_digitChar: "d < 10 \<Longrightarrow> isDigit (digitChar d)"
  by (simp add: isDigit_def digitChar_def)

lemma digitValue_digitChar: "d < 10 \<Longrightarrow> digitValue (digitChar d) = d"
  by (simp add: digitValue_def digitChar_def)

lemma isDigit_plain:
  assumes "isDigit c"
  shows "\<not> isSpace c" and "c \<noteq> CHR '':''" and "toUpperChar c = [c]"
  using assms by (auto simp: isDigit_def isSpace_def toUpperChar_def Let_def)

lemma isSpace_plain:
  assumes "isSpace c"
  shows "toUpperChar c = [c]"
  using assms by (auto simp: isSpace_def toUpperChar_def Let_def)

lemma toUpperChar_colon: "toUpperChar CHR '':'' = '':''"
  by (simp add: toUpperChar_def)

lemma toUpperCase_append: "toUpperCase (a @ b) = toUpperCase a @ toUpperCase b"
  by (simp add: toUpperCase_def)

lemma toUpperCase_Cons: "toUpperCase (c # s) = toUpperChar c @ toUpperCase s"
  by (simp add: toUpperCase_def)

lemma toUpperCase_Nil: "toUpperCase [] = []"
  by (simp add: toUpperCase_def)

lemma toUpperCase_digits: "list_all isDigit s \<Longrightarrow> toUpperCase s = s"
  by (induction s) (simp_all add: toUpperCase_Nil toUpperCase_Cons isDigit_plain)

lemma toUpperCase_spaces: "list_all isSpace s \<Longrightarrow> toUpperCase s = s"
  by (induction s) (simp_all add: toUpperCase_Nil toUpperCase_Cons isSpace_plain)

lemma trim_id:
  assumes "s \<noteq> []" and "\<not> isSpace (hd s)" and "\<not> isSpace (last s)"
  shows "trim s = s"
proof -
  from assms have a: "dropWhile isSpace s = s" by (cases s) auto
  from assms have "dropWhile isSpace (rev s) = rev s"
    by (cases s rule: rev_cases) auto
  with a show ?thesis by (simp add: trim_def)
qed

lemma timePrefix_digits:
  assumes "list_all isDigit hs" and "length hs = 1 \<or> length hs = 2"
    and "isDigit m1" and "isDigit m2"
  shows "timePrefix (hs @ '':'' @ [m1, m2] @ r) = Some (hs, [m1, m2], r)"
proof -
  have c: "\<not> isDigit CHR '':''" by (simp add: isDigit_def)
  from assms(1) have a: "takeWhile isDigit (hs @ '':'' @ [m1, m2] @ r) = hs"
    using c by (simp add: list_all_iff)
  from assms(1) have b: "dropWhile isDigit (hs @ '':'' @ [m1, m2] @ r) = '':'' @ [m1, m2] @ r"
    using c by (simp add: list_all_iff)
  show ?thesis
    unfolding timePrefix_def a b using assms(2-4) by (simp add: Let_def)
qed

lemma padStart_toString: "n < 100 \<Longrightarrow> padStart 2 CHR ''0'' (toString n) = twoDigits n"
proof (cases "n < 10")
  case True
  then show ?thesis
    by (simp add: toString.simps [of n] padStart_def twoDigits_def digitChar_def)
next
  case False
  moreover assume "n < 100"
  ultimately have "n div 10 < 10" by simp
  with False show ?thesis
    by (simp add: toString.simps [of n] toString.simps [of "n div 10"] padStart_def twoDigits_def)
qed

lemma parseInt_one: "d < 10 \<Longrightarrow> parseInt [digitChar d] = d"
  by (simp add: parseInt_def digitValue_digitChar)

lemma parseInt_two: "n < 100 \<Longrightarrow> parseInt (twoDigits n) = n"
  by (simp add: parseInt_def twoDigits_def digitValue_digitChar)

lemma twoDigits_digits: "n < 100 \<Longrightarrow> list_all isDigit (twoDigits n)"
  by (simp add: twoDigits_def isDigit_digitChar)

text \<open>The 24-hour block on a string of the form \<open>H:MM\<close> or \<open>HH:MM\<close>.\<close>

lemma time24_digits:
  assumes "list_all isDigit hs" and "length hs = 1 \<or> length hs = 2"
    and "isDigit m1" and "isDigit m2"
  shows "time24 (hs @ '':'' @ [m1, m2]) =
           (if parseInt hs \<le> 23
            then Some (padStart 2 CHR ''0'' (toString (parseInt hs)) @ '':'' @ [m1, m2])
            else None)"
  using timePrefix_digits [OF assms, of "[]"] by (simp add: time24_def match24_def Let_def)

lemma time24_rest:
  assumes "list_all isDigit hs" and "length hs = 1 \<or> length hs = 2"
    and "isDigit m1" and "isDigit m2" and "r \<noteq> []"
  shows "time24 (hs @ '':'' @ [m1, m2] @ r) = None"
  using timePrefix_digits [OF assms(1-4), of r] assms(5)
  by (simp add: time24_def match24_def)

lemma time12_digits:
  assumes "list_all isDigit hs" and "length hs = 1 \<or> length hs = 2"
    and "isDigit m1" and "isDigit m2" and "list_all isSpace ws"
    and "pd = ''AM'' \<or> pd = ''PM''"
  shows "time12 (hs @ '':'' @ [m1, m2] @ ws @ pd) =
           Some (padStart 2 CHR ''0'' (toString
                   (if pd = ''PM'' \<and> parseInt hs \<noteq> 12 then parseInt hs + 12
                    else if pd = ''AM'' \<and> parseInt hs = 12 then 0 else parseInt hs))
                 @ '':'' @ [m1, m2])"
proof -
  have "\<not> isSpace (hd pd)" using assms(6) by (auto simp: isSpace_def)
  moreover have "pd \<noteq> []" using assms(6) by auto
  ultimately have "dropWhile isSpace (ws @ pd) = pd"
    using assms(5) by (cases pd) (simp_all add: list_all_iff)
  then show ?thesis
    using timePrefix_digits [OF assms(1-4), of "ws @ pd"] assms(6)
    by (simp add: time12_def match12_def Let_def)
qed

lemma normalizeTime_24:
  assumes "list_all isDigit hs" and "length hs = 1 \<or> length hs = 2"
    and "isDigit m1" and "isDigit m2" and "parseInt hs \<le> 23"
  shows "normalizeTime (hs @ '':'' @ [m1, m2]) =
           Inr (padStart 2 CHR ''0'' (toString (parseInt hs)) @ '':'' @ [m1, m2])"
proof -
  let ?s = "hs @ '':'' @ [m1, m2]"
  from assms(1,2) have h: "hs \<noteq> []" "isDigit (hd hs)" by (cases hs; auto)+
  then have "trim ?s = ?s"
    using assms(4) by (intro trim_id) (simp_all add: isDigit_plain)
  moreover have "toUpperCase ?s = ?s"
    using assms(1,3,4)
    by (simp add: toUpperCase_append toUpperCase_Cons toUpperCase_Nil toUpperCase_digits
        isDigit_plain toUpperChar_colon)
  ultimately show ?thesis
    using time24_digits [OF assms(1-4)] assms(5) by (simp add: normalizeTime_def)
qed

lemmas time_defs = normalizeTime_def time24_def time12_def match24_def match12_def timePrefix_def
  toUpperCase_def toUpperChar_def trim_def isSpace_def isDigit_def parseInt_def digitValue_def
  padStart_def toString.simps digitChar_def

lemma normalizeTime_12:
  assumes "list_all isDigit hs" and "length hs = 1 \<or> length hs = 2"
    and "isDigit m1" and "isDigit m2" and "list_all isSpace ws"
    and "toUpperCase ps = pd" and "pd = ''AM'' \<or> pd = ''PM''" and "\<not> isSpace (last ps)"
  shows "normalizeTime (hs @ '':'' @ [m1, m2] @ ws @ ps) =
           Inr (padStart 2 CHR ''0'' (toString
                   (if pd = ''PM'' \<and> parseInt hs \<noteq> 12 then parseInt hs + 12
                    else if pd = ''AM'' \<and> parseInt hs = 12 then 0 else parseInt hs))
                 @ '':'' @ [m1, m2])"
proof -
  let ?s = "hs @ '':'' @ [m1, m2] @ ws @ ps"
  from assms(1,2) have h: "hs \<noteq> []" "isDigit (hd hs)" by (cases hs; auto)+
  from assms(6,7) have p: "ps \<noteq> []" by (auto simp: toUpperCase_Nil)
  have "trim ?s = ?s"
    using h p assms(8) by (intro trim_id) (simp_all add: isDigit_plain)
  moreover have "toUpperCase ?s = hs @ '':'' @ [m1, m2] @ ws @ pd"
    using assms(1,3,4,5,6)
    by (simp add: toUpperCase_append toUpperCase_Cons toUpperCase_Nil toUpperCase_digits
        toUpperCase_spaces isDigit_plain toUpperChar_colon)
  moreover have "ws @ pd \<noteq> []" using assms(7) by auto
  ultimately show ?thesis
    using time24_rest [OF assms(1-4), of "ws @ pd"] time12_digits [OF assms(1-5,7)]
    by (simp add: normalizeTime_def)
qed

lemma periodForms_upper:
  assumes "ps \<in> set (periodForms p)"
  shows "toUpperCase ps = (case p of AM \<Rightarrow> ''AM'' | PM \<Rightarrow> ''PM'') \<and> \<not> isSpace (last ps)"
  using assms by (cases p) (auto simp: toUpperCase_def toUpperChar_def isSpace_def)

lemma hourForms:
  assumes "hs = twoDigits h \<or> (h < 10 \<and> hs = [digitChar h])" and "h < 100"
  shows "list_all isDigit hs" and "length hs = 1 \<or> length hs = 2" and "parseInt hs = h"
  using assms
  by (auto simp: twoDigits_digits parseInt_one parseInt_two isDigit_digitChar)
     (simp_all add: twoDigits_def)

lemma digitChar_eval:
  "digitChar 0 = CHR ''0''" "digitChar 1 = CHR ''1''" "digitChar 2 = CHR ''2''"
  "digitChar 3 = CHR ''3''" "digitChar 4 = CHR ''4''" "digitChar 5 = CHR ''5''"
  "digitChar 6 = CHR ''6''" "digitChar 7 = CHR ''7''" "digitChar 8 = CHR ''8''"
  "digitChar 9 = CHR ''9''" "digitChar (Suc 0) = CHR ''1''"
  by (simp_all add: digitChar_def)

lemma hour24_code:
  assumes "1 \<le> h" and "h \<le> 12"
  shows "(if (case p of AM \<Rightarrow> ''AM'' | PM \<Rightarrow> ''PM'') = ''PM'' \<and> h \<noteq> 12 then h + 12
          else if (case p of AM \<Rightarrow> ''AM'' | PM \<Rightarrow> ''PM'') = ''AM'' \<and> h = 12 then 0 else h)
         = hour24 h p"
  using assms by (cases p) (auto simp: hour24_def)

text \<open>
  Claim C7: a valid time is normalised to its canonical 24-hour form. An hour \<open>h\<close> is
  written with two digits or, below ten, with one, and a minute \<open>m\<close> below 60 with two
  digits. For \<open>h\<close> up to 23 the string \<open>H:MM\<close> or \<open>HH:MM\<close> gives the canonical
  time of \<open>h\<close> and \<open>m\<close>; for \<open>h\<close> from 1 to 12, followed by any white space and AM or
  PM in either case, it gives the canonical time of the 24-hour equivalent of \<open>h\<close>.
\<close>

theorem normalizeTime_canonical:
  assumes "hs = twoDigits h \<or> (h < 10 \<and> hs = [digitChar h])" and "m < 60"
  shows "(h \<le> 23 \<longrightarrow> normalizeTime (hs @ '':'' @ twoDigits m) = Inr (canonicalTime h m)) \<and>
         (1 \<le> h \<and> h \<le> 12 \<and> list_all isSpace ws \<and> ps \<in> set (periodForms p) \<longrightarrow>
            normalizeTime (hs @ '':'' @ twoDigits m @ ws @ ps) = Inr (canonicalTime (hour24 h p) m))"
proof (intro conjI impI)
  have m: "isDigit (digitChar (m div 10))" "isDigit (digitChar (m mod 10))"
    using assms(2) by (simp_all add: isDigit_digitChar)
  have mm: "twoDigits m = [digitChar (m div 10), digitChar (m mod 10)]"
    by (simp add: twoDigits_def)
  {
    assume h: "h \<le> 23"
    then have "h < 100" by simp
    note f = hourForms [OF assms(1) this]
    have "normalizeTime (hs @ '':'' @ twoDigits m) =
            Inr (padStart 2 CHR ''0'' (toString (parseInt hs)) @ '':'' @ twoDigits m)"
      unfolding mm using f(1,2) m h f(3) by (intro normalizeTime_24) simp_all
    also have "\<dots> = Inr (canonicalTime h m)"
      using \<open>h < 100\<close> by (simp add: f(3) padStart_toString canonicalTime_def)
    finally show "normalizeTime (hs @ '':'' @ twoDigits m) = Inr (canonicalTime h m)" .
  }
  {
    assume a: "1 \<le> h \<and> h \<le> 12 \<and> list_all isSpace ws \<and> ps \<in> set (periodForms p)"
    then have "h < 100" by simp
    note f = hourForms [OF assms(1) this]
    let ?pd = "case p of AM \<Rightarrow> ''AM'' | PM \<Rightarrow> ''PM''"
    from a have u: "toUpperCase ps = ?pd" "\<not> isSpace (last ps)"
      using periodForms_upper [of ps p] by simp_all
    have pd: "?pd = ''AM'' \<or> ?pd = ''PM''" by (cases p) simp_all
    have w: "list_all isSpace ws" using a by simp
    have lt: "hour24 h p < 100" using a by (cases p) (auto simp: hour24_def)
    have "normalizeTime (hs @ '':'' @ twoDigits m @ ws @ ps) =
            Inr (padStart 2 CHR ''0'' (toString
                   (if ?pd = ''PM'' \<and> parseInt hs \<noteq> 12 then parseInt hs + 12
                    else if ?pd = ''AM'' \<and> parseInt hs = 12 then 0 else parseInt hs))
                 @ '':'' @ twoDigits m)"
      unfolding mm by (rule normalizeTime_12 [OF f(1,2) m w u(1) pd u(2)])
    also have "\<dots> = Inr (padStart 2 CHR ''0'' (toString (hour24 h p)) @ '':'' @ twoDigits m)"
      unfolding f(3) using a by (simp only: hour24_code)
    also have "\<dots> = Inr (canonicalTime (hour24 h p) m)"
      using lt by (simp add: padStart_toString canonicalTime_def)
    finally show "normalizeTime (hs @ '':'' @ twoDigits m @ ws @ ps) =
        Inr (canonicalTime (hour24 h p) m)" .
  }
qed

text \<open>
  The examples of claim C7: \<open>2:30\<close>, \<open>2:30 PM\<close>, midnight and noon.
\<close>

theorem normalizeTime_canonical_witness:
  "normalizeTime ''2:30'' = Inr ''02:30'' \<and> normalizeTime ''2:30 PM'' = Inr ''14:30'' \<and>
   normalizeTime ''12:00 AM'' = Inr ''00:00'' \<and> normalizeTime ''12:00 PM'' = Inr ''12:00''"
  using normalizeTime_canonical [of "''2''" 2 30 "'' ''" "''PM''" PM]
    normalizeTime_canonical [of "''12''" 12 0 "'' ''" "''AM''" AM]
    normalizeTime_canonical [of "''12''" 12 0 "'' ''" "''PM''" PM]
  by (simp add: twoDigits_def digitChar_eval canonicalTime_def hour24_def isSpace_def)

text \<open>
  Claim C10: the minutes are not checked against a range. Whenever the hour of \<open>H:MM\<close>
  or \<open>HH:MM\<close> is at most 23, the function succeeds and returns the two minute digits as
  they are, whatever digits they are.
\<close>

theorem normalizeTime_minutes_unchecked:
  assumes "list_all isDigit hs" and "length hs = 1 \<or> length hs = 2" and "parseInt hs \<le> 23"
    and "isDigit m1" and "isDigit m2"
  shows "normalizeTime (hs @ '':'' @ [m1, m2]) =
           Inr (padStart 2 CHR ''0'' (toString (parseInt hs)) @ '':'' @ [m1, m2])"
  using assms by (intro normalizeTime_24)

text \<open>The example of claim C10: the minutes 99 are returned.\<close>

theorem normalizeTime_minutes_unchecked_witness:
  "normalizeTime ''10:99'' = Inr ''10:99''"
  using normalizeTime_minutes_unchecked [of "''10''" "CHR ''9''" "CHR ''9''"]
  by (simp add: isDigit_def parseInt_def digitValue_def padStart_def toString.simps
      digitChar_eval)

text \<open>
  The function fails exactly when neither block returns: the 24-hour pattern does not
  match or its hour is above 23, and the twelve-hour pattern does not match.
\<close>

lemma normalizeTime_fails_iff:
  "normalizeTime s = Inl InvalidFormat \<longleftrightarrow>
     (case match24 (toUpperCase (trim s)) of None \<Rightarrow> True | Some (h, m) \<Rightarrow> 23 < parseInt h) \<and>
     match12 (toUpperCase (trim s)) = None"
  by (auto simp: normalizeTime_def time24_def time12_def Let_def split: option.splits)

text \<open>
  Claim C2 says that \<open>13:00 PM\<close> and \<open>25:00\<close> are both rejected with \<open>InvalidFormat\<close>.
  The twelve-hour block has no check of the hour: \<open>13:00 PM\<close> is accepted and gives
  \<open>25:00\<close>, which the 24-hour block itself rejects as an input.
\<close>

theorem normalizeTime_13_PM:
  "normalizeTime ''13:00 PM'' = Inr ''25:00'' \<and> normalizeTime ''25:00'' = Inl InvalidFormat"
  by (simp add: time_defs)

section \<open>Dates on a host away from UTC\<close>

lemmas date_defs = monthNames_def monthNumber_def isLeapYear_def daysInMonth_def validDate_def
  parseLongDate_def parseISODate_def daysFromCivil_def civilFromDays_def msPerDay_def
  parseDate_def pad_def isoYear_def isoString_def hostToISOString_def

lemma parseDate_March_3:
  "parseDate tz ''March 3, 2025'' = Some (20150 * msPerDay - tz * 60000)"
  by (simp add: parseDate_def parseISODate_def parseLongDate_def monthNumber_def monthNames_def
      validDate_def daysInMonth_def isLeapYear_def daysFromCivil_def isDigit_def parseInt_def
      digitValue_def Let_def)

lemma isoString_date:
  assumes "civilFromDays (t div msPerDay) = (y, m, d)"
  shows "\<exists>r. isoString t = isoYear y @ ''-'' @ pad 2 m @ ''-'' @ pad 2 d @ ''T'' @ r"
  using assms by (simp add: isoString_def Let_def)

lemma replicate_2: "replicate 2 c = [c, c]"
  by (simp add: numeral_2_eq_2)

lemma date_2025_03:
  "isoYear 2025 = ''2025''" "pad 2 3 = ''03''" "pad 2 2 = ''02''" "pad 2 0 = ''00''"
  "pad 2 21 = ''21''" "pad 3 0 = ''000''"
  by (simp_all add: isoYear_def pad_def padStart_def toString.simps digitChar_eval replicate_2)

lemma civil_20149: "civilFromDays 20149 = (2025, 3, 2)"
  by code_simp

lemma civil_20150: "civilFromDays 20150 = (2025, 3, 3)"
  by code_simp

text \<open>East of UTC, up to fourteen hours: the day before.\<close>

lemma normalizeDate_east:
  assumes "0 < tz" and "tz \<le> 840"
  shows "normalizeDate (hostToISOString tz) ''March 3, 2025'' = Inr ''2025-03-02''"
proof -
  let ?t = "20150 * msPerDay - tz * 60000"
  have "?t div msPerDay = 20149"
    using assms by (intro int_div_pos_eq [where r = "msPerDay - tz * 60000"])
      (simp_all add: msPerDay_def)
  then obtain r where "isoString ?t = ''2025-03-02'' @ ''T'' @ r"
    using isoString_date [of ?t 2025 3 2] by (auto simp: civil_20149 date_2025_03)
  then show ?thesis
    by (simp add: normalizeDate_def hostToISOString_def parseDate_March_3)
qed

text \<open>At UTC and west of it, up to twelve hours: the day itself.\<close>

lemma normalizeDate_west:
  assumes "- 720 \<le> tz" and "tz \<le> 0"
  shows "normalizeDate (hostToISOString tz) ''March 3, 2025'' = Inr ''2025-03-03''"
proof -
  let ?t = "20150 * msPerDay - tz * 60000"
  have "?t div msPerDay = 20150"
    using assms by (intro int_div_pos_eq [where r = "- tz * 60000"])
      (simp_all add: msPerDay_def)
  then obtain r where "isoString ?t = ''2025-03-03'' @ ''T'' @ r"
    using isoString_date [of ?t 2025 3 3] by (auto simp: civil_20150 date_2025_03)
  then show ?thesis
    by (simp add: normalizeDate_def hostToISOString_def parseDate_March_3)
qed

lemma parseDate_not_a_date: "parseDate tz ''not a date'' = None"
  by (simp add: parseDate_def parseISODate_def parseLongDate_def monthNumber_def monthNames_def
      Let_def isDigit_def)

text \<open>
  Claim C8 says that \<open>March 3, 2025\<close> is normalised to \<open>2025-03-03\<close>. The function
  reads the string as local midnight and prints that instant in UTC: on a host three
  hours ahead of UTC the instant is 21:00 of the day before, and the result is
  \<open>2025-03-02\<close>. On a host at UTC the result is the day claimed, and \<open>not a date\<close>
  is rejected with \<open>InvalidFormat\<close> as claimed.
\<close>

theorem normalizeDate_March_3_east_of_UTC:
  "normalizeDate (hostToISOString 180) ''March 3, 2025'' = Inr ''2025-03-02'' \<and>
   normalizeDate (hostToISOString 0) ''March 3, 2025'' = Inr ''2025-03-03'' \<and>
   normalizeDate (hostToISOString 180) ''not a date'' = Inl InvalidFormat"
  using normalizeDate_east [of 180] normalizeDate_west [of 0]
  by (simp add: normalizeDate_def hostToISOString_def parseDate_not_a_date)

text \<open>The instant in full.\<close>

lemma hostToISOString_example:
  "hostToISOString 180 ''March 3, 2025'' = Some ''2025-03-02T21:00:00.000Z''"
  by code_simp

section \<open>Slugs of created events\<close>

text \<open>White space around a title does not change its slug.\<close>

lemma isSpace_toLowerChar: "isSpace (toLowerChar c) = isSpace c"
  by (auto simp: isSpace_def toLowerChar_def Let_def)

lemma trim_toLowerCase: "trim (toLowerCase s) = toLowerCase (trim s)"
proof -
  have c: "isSpace \<circ> toLowerChar = isSpace"
    by (rule ext) (simp add: isSpace_toLowerChar)
  have d: "dropWhile isSpace (map toLowerChar xs) = map toLowerChar (dropWhile isSpace xs)"
    for xs by (simp add: dropWhile_map c)
  have "trim (map toLowerChar s) =
          rev (dropWhile isSpace (map toLowerChar (rev (dropWhile isSpace s))))"
    by (simp only: trim_def d rev_map)
  also have "\<dots> = map toLowerChar (trim s)"
    by (simp only: trim_def d rev_map)
  finally show ?thesis by (simp only: toLowerCase_def)
qed

lemma dropWhile_rev_prefix:
  "\<exists>w. x = rev (dropWhile P (rev x)) @ w"
  by (metis rev_append rev_rev_ident takeWhile_dropWhile_id)

lemma trim_head:
  assumes "trim s \<noteq> []"
  shows "\<not> isSpace (hd (trim s))"
proof -
  let ?x = "dropWhile isSpace s"
  obtain w where w: "?x = trim s @ w"
    using dropWhile_rev_prefix [of ?x isSpace] by (auto simp: trim_def)
  with assms have "hd (trim s) = hd ?x" by simp
  moreover from w assms have "?x \<noteq> []" by auto
  ultimately show ?thesis using hd_dropWhile by metis
qed

lemma trim_last:
  assumes "trim s \<noteq> []"
  shows "\<not> isSpace (last (trim s))"
proof -
  let ?y = "dropWhile isSpace (rev (dropWhile isSpace s))"
  from assms have "?y \<noteq> []" by (simp add: trim_def)
  then have "\<not> isSpace (hd ?y)" by (rule hd_dropWhile)
  moreover have "last (trim s) = hd ?y" using \<open>?y \<noteq> []\<close> by (simp add: trim_def last_rev)
  ultimately show ?thesis by simp
qed

lemma trim_trim: "trim (trim s) = trim s"
proof (cases "trim s = []")
  case True
  then have "trim (trim s) = trim []" by simp
  also have "\<dots> = []" by (simp add: trim_def)
  finally show ?thesis using True by simp
next
  case False
  then show ?thesis by (intro trim_id trim_head trim_last)
qed

lemma generateSlug_trim: "generateSlug (trim t) = generateSlug t"
  by (simp add: generateSlug_def trim_toLowerCase [symmetric] trim_trim)

lemma slugInUse_iff:
  "slugInUse evs i s \<longleftrightarrow> (\<exists>e \<in> set evs. slug e = s \<and> docId e \<noteq> i)"
  by (auto simp: slugInUse_def find_None_iff)

lemma slugInUse_fresh:
  "i \<notin> docId ` set evs \<Longrightarrow> slugInUse evs i s \<longleftrightarrow> s \<in> slug ` set evs"
  by (auto simp: slugInUse_iff)

text \<open>
  The loop, entered with the candidate \<open>cur\<close> and the counter \<open>c\<close>: a free candidate is
  returned at once; otherwise the result is the first free candidate among those
  numbered from \<open>c\<close>.
\<close>

lemma uniqueSlug_loop:
  "(\<not> slugInUse evs i cur \<longrightarrow> uniqueSlug evs i b cur c = cur) \<and>
   (slugInUse evs i cur \<longrightarrow>
      (\<exists>k\<ge>c. uniqueSlug evs i b cur c = b @ ''-'' @ toString k \<and>
             \<not> slugInUse evs i (b @ ''-'' @ toString k) \<and>
             (\<forall>j. c \<le> j \<and> j < k \<longrightarrow> slugInUse evs i (b @ ''-'' @ toString j))))"
proof (induction evs i b cur c rule: uniqueSlug.induct)
  case (1 evs i b cur c)
  show ?case
  proof (cases "slugInUse evs i cur")
    case False
    then show ?thesis by (simp add: uniqueSlug.simps [of evs i b cur c])
  next
    case True
    note IH = 1 [OF True]
    have u: "uniqueSlug evs i b cur c = uniqueSlug evs i b (b @ ''-'' @ toString c) (c + 1)"
      using True by (simp add: uniqueSlug.simps [of evs i b cur c])
    show ?thesis
    proof (cases "slugInUse evs i (b @ ''-'' @ toString c)")
      case False
      with IH have "uniqueSlug evs i b cur c = b @ ''-'' @ toString c"
        using u by simp
      with False True show ?thesis by (intro conjI impI exI [of _ c]) auto
    next
      case inUse: True
      with IH obtain k where k: "c + 1 \<le> k"
        "uniqueSlug evs i b (b @ ''-'' @ toString c) (c + 1) = b @ ''-'' @ toString k"
        "\<not> slugInUse evs i (b @ ''-'' @ toString k)"
        "\<forall>j. c + 1 \<le> j \<and> j < k \<longrightarrow> slugInUse evs i (b @ ''-'' @ toString j)"
        by blast
      have "\<forall>j. c \<le> j \<and> j < k \<longrightarrow> slugInUse evs i (b @ ''-'' @ toString j)"
      proof (intro allI impI)
        fix j assume "c \<le> j \<and> j < k"
        then consider "j = c" | "c + 1 \<le> j \<and> j < k" by linarith
        then show "slugInUse evs i (b @ ''-'' @ toString j)"
          using inUse k(4) by cases auto
      qed
      with k u True show ?thesis by (intro conjI impI exI [of _ k]) auto
    qed
  qed
qed

lemma uniqueSlug_free: "\<not> slugInUse evs i (uniqueSlug evs i b cur c)"
  using uniqueSlug_loop [of evs i cur b c] by (cases "slugInUse evs i cur") auto

lemma eventPreSave_new:
  assumes "normalizeDate toISOString (date doc) = Inr d"
    and "normalizeTime (time doc) = Inr t"
  shows "eventPreSave toISOString evs True isModified doc =
           Inr (doc\<lparr>slug := uniqueSlug evs (docId doc) (generateSlug (title doc))
                               (generateSlug (title doc)) 1,
                    date := d, time := t\<rparr>)"
  using assms by (simp add: eventPreSave_def Let_def)

lemma insertEvent_fresh:
  assumes "docId doc \<notin> docId ` set evs" and "slug doc \<notin> slug ` set evs"
  shows "insertEvent evs doc = (Inr doc, evs @ [doc])"
proof -
  from assms have "\<forall>e \<in> set evs. \<not> (docId e = docId doc \<or> slug e = slug doc)"
    by (metis imageI)
  then show ?thesis by (simp add: insertEvent_def find_None_iff)
qed

lemma eventSetters_fields:
  "docId (eventSetters doc) = docId doc" "title (eventSetters doc) = trim (title doc)"
  "date (eventSetters doc) = date doc" "time (eventSetters doc) = time doc"
  by (simp_all add: eventSetters_def)

lemma Event_create_result:
  assumes "docId doc \<notin> docId ` set evs"
    and "validEvent (eventSetters doc)"
    and "normalizeDate toISOString (date doc) = Inr d"
    and "normalizeTime (time doc) = Inr t"
    and "doc' = (eventSetters doc)\<lparr>slug := uniqueSlug evs (docId doc)
                   (generateSlug (title doc)) (generateSlug (title doc)) 1,
                 date := d, time := t\<rparr>"
  shows "Event_create toISOString evs doc = (Inr doc', evs @ [doc'])"
proof -
  let ?doc1 = "eventSetters doc"
  have "\<not> slugInUse evs (docId doc) (slug doc')"
    using uniqueSlug_free by (simp add: assms(5))
  then have "slug doc' \<notin> slug ` set evs"
    using slugInUse_fresh [OF assms(1)] by simp
  moreover have "docId doc' \<notin> docId ` set evs"
    using assms(1,5) by (simp add: eventSetters_fields)
  ultimately have i: "insertEvent evs doc' = (Inr doc', evs @ [doc'])"
    by (rule insertEvent_fresh [rotated])
  have "eventPreSave toISOString evs True (\<lambda>path. True) ?doc1 = Inr doc'"
    using eventPreSave_new [of toISOString ?doc1 d t evs "\<lambda>path. True"] assms(3,4)
    by (simp add: eventSetters_fields generateSlug_trim assms(5))
  with i assms(2) show ?thesis by (simp add: Event_create_def Let_def)
qed

text \<open>
  Claim C3: creating an event whose identifier is new, which passes the validators of
  the schema and whose date and time can be normalised, succeeds and stores the event.
  Its slug is the base slug of the title when no stored event has that slug, and
  otherwise the first candidate \<open>base-1\<close>, \<open>base-2\<close>, ... that no stored event has.
\<close>

theorem Event_create_slug:
  assumes "docId doc \<notin> docId ` set evs"
    and "validEvent (eventSetters doc)"
    and "normalizeDate toISOString (date doc) = Inr d"
    and "normalizeTime (time doc) = Inr t"
  shows "\<exists>s. Event_create toISOString evs doc =
               (Inr ((eventSetters doc)\<lparr>slug := s, date := d, time := t\<rparr>),
                evs @ [(eventSetters doc)\<lparr>slug := s, date := d, time := t\<rparr>]) \<and>
             (if generateSlug (title doc) \<notin> slug ` set evs
              then s = generateSlug (title doc)
              else \<exists>k\<ge>1. s = generateSlug (title doc) @ ''-'' @ toString k \<and>
                     s \<notin> slug ` set evs \<and>
                     (\<forall>j. 1 \<le> j \<and> j < k \<longrightarrow>
                        generateSlug (title doc) @ ''-'' @ toString j \<in> slug ` set evs))"
proof -
  let ?b = "generateSlug (title doc)"
  let ?s = "uniqueSlug evs (docId doc) ?b ?b 1"
  note fresh = slugInUse_fresh [OF assms(1)]
  have "Event_create toISOString evs doc =
               (Inr ((eventSetters doc)\<lparr>slug := ?s, date := d, time := t\<rparr>),
                evs @ [(eventSetters doc)\<lparr>slug := ?s, date := d, time := t\<rparr>])"
    using assms by (intro Event_create_result) simp_all
  moreover have "if ?b \<notin> slug ` set evs then ?s = ?b
     else \<exists>k\<ge>1. ?s = ?b @ ''-'' @ toString k \<and> ?s \<notin> slug ` set evs \<and>
            (\<forall>j. 1 \<le> j \<and> j < k \<longrightarrow> ?b @ ''-'' @ toString j \<in> slug ` set evs)"
    using uniqueSlug_loop [of evs "docId doc" ?b ?b 1] uniqueSlug_free [of evs "docId doc" ?b ?b 1]
    unfolding fresh by (cases "?b \<in> slug ` set evs") auto
  ultimately show ?thesis by blast
qed

lemma uniqueSlug_base: "\<not> slugInUse evs i b \<Longrightarrow> uniqueSlug evs i b b c = b"
  by (simp add: uniqueSlug.simps [of evs i b b c])

lemma devCon_slug: "generateSlug (title (devConEvent i)) = ''devcon''"
  by (simp add: devConEvent_def slug_defs)

lemma devCon_time: "normalizeTime (time (devConEvent i)) = Inr ''14:30''"
  by (simp add: devConEvent_def time_defs)

lemma devCon_fields:
  "generateSlug (title (devConEvent i)) = ''devcon''"
  "normalizeDate sampleToISOString (date (devConEvent i)) = Inr ''2025-03-03''"
  "normalizeTime (time (devConEvent i)) = Inr ''14:30''"
  "eventSetters (devConEvent i) = devConEvent i"
  "validEvent (devConEvent i)"
  by (simp_all add: devCon_slug devCon_time)
     (simp_all add: devConEvent_def normalizeDate_def sampleToISOString_def eventSetters_def
       validEvent_def trim_def isSpace_def)

lemma toString_1: "toString 1 = ''1''" "toString (Suc 0) = ''1''"
  by (simp_all add: toString.simps digitChar_eval)

lemma Event_create_DevCon_first:
  "Event_create sampleToISOString [] (devConEvent 101) = (Inr storedDevCon, [storedDevCon])"
  using Event_create_result [of "devConEvent 101" "[]" sampleToISOString "''2025-03-03''"
      "''14:30''" storedDevCon]
  by (simp add: devCon_fields uniqueSlug_base slugInUse_iff storedDevCon_def)

text \<open>
  The example of claim C3: two events titled \<open>DevCon\<close>, created one after the other in
  an empty store, get the slugs \<open>devcon\<close> and \<open>devcon-1\<close>.
\<close>

theorem Event_create_slug_witness:
  "map slug (snd (Event_create sampleToISOString
                    (snd (Event_create sampleToISOString [] (devConEvent 101)))
                    (devConEvent 102)))
     = [''devcon'', ''devcon-1'']"
proof -
  have f: "docId (devConEvent 102) \<notin> docId ` set [storedDevCon]"
    by (simp add: devConEvent_def storedDevCon_def)
  have v: "validEvent (eventSetters (devConEvent 102))"
    by (simp add: devCon_fields)
  have g: "slug ` set [storedDevCon] = {''devcon''}"
    by (simp add: storedDevCon_def)
  obtain s where s: "Event_create sampleToISOString [storedDevCon] (devConEvent 102) =
        (Inr ((devConEvent 102)\<lparr>slug := s, date := ''2025-03-03'', time := ''14:30''\<rparr>),
         [storedDevCon] @
         [(devConEvent 102)\<lparr>slug := s, date := ''2025-03-03'', time := ''14:30''\<rparr>])"
     and k: "\<exists>k\<ge>1. s = ''devcon'' @ ''-'' @ toString k \<and> s \<notin> {''devcon''} \<and>
              (\<forall>j. 1 \<le> j \<and> j < k \<longrightarrow> ''devcon'' @ ''-'' @ toString j \<in> {''devcon''})"
    using Event_create_slug [OF f v devCon_fields(2,3)]
    unfolding g devCon_fields(1,4) by auto
  from k obtain k where k: "1 \<le> k" "s = ''devcon'' @ ''-'' @ toString k"
    "\<forall>j. 1 \<le> j \<and> j < k \<longrightarrow> ''devcon'' @ ''-'' @ toString j \<in> {''devcon''}" by blast
  have "k = 1"
  proof (rule ccontr)
    assume "k \<noteq> 1"
    with k(1) have "1 \<le> (1::nat) \<and> 1 < k" by simp
    with k(3) have "''devcon'' @ ''-'' @ toString 1 \<in> {''devcon''}" by blast
    then show False by (simp add: toString_1)
  qed
  with k(2) have "s = ''devcon-1''" by (simp add: toString_1)
  with s show ?thesis by (simp add: Event_create_DevCon_first storedDevCon_def)
qed

section \<open>Saving an existing event\<close>

text \<open>
  Claim C9: when an existing event is saved, the hook leaves the slug as it is unless the
  title was modified, the date unless the date was modified and the time unless the time
  was modified; it never changes another field, and a save with none of the three
  modified returns the document as it is.
\<close>

theorem eventPreSave_untouched:
  "((\<not> isModified ''title'' \<and> \<not> isModified ''date'' \<and> \<not> isModified ''time'') \<longrightarrow>
      eventPreSave toISOString evs False isModified this = Inr this) \<and>
   (\<forall>this'. eventPreSave toISOString evs False isModified this = Inr this' \<longrightarrow>
      (\<not> isModified ''title'' \<longrightarrow> slug this' = slug this) \<and>
      (\<not> isModified ''date'' \<longrightarrow> date this' = date this) \<and>
      (\<not> isModified ''time'' \<longrightarrow> time this' = time this) \<and>
      this'\<lparr>slug := slug this, date := date this, time := time this\<rparr> = this)"
  by (auto simp: eventPreSave_def Let_def split: sum.splits if_splits)

text \<open>
  An instance of claim C9: a save without changes, and a save after the time alone was
  set to \<open>9:05 am\<close>.
\<close>

theorem eventPreSave_untouched_witness:
  "eventPreSave sampleToISOString [storedDevCon] False (\<lambda>path. False) storedDevCon =
     Inr storedDevCon \<and>
   eventPreSave sampleToISOString [storedDevCon] False (\<lambda>path. path = ''time'')
       (storedDevCon\<lparr>time := ''9:05 am''\<rparr>) =
     Inr (storedDevCon\<lparr>time := ''09:05''\<rparr>) \<and>
   slug (storedDevCon\<lparr>time := ''09:05''\<rparr>) = slug storedDevCon \<and>
   date (storedDevCon\<lparr>time := ''09:05''\<rparr>) = date storedDevCon"
proof -
  have n: "eventPreSave sampleToISOString [storedDevCon] False (\<lambda>path. False) storedDevCon =
      Inr storedDevCon"
    using eventPreSave_untouched [of "\<lambda>path. False" sampleToISOString "[storedDevCon]"
        storedDevCon]
    by blast
  have e: "eventPreSave sampleToISOString [storedDevCon] False (\<lambda>path. path = ''time'')
       (storedDevCon\<lparr>time := ''9:05 am''\<rparr>) = Inr (storedDevCon\<lparr>time := ''09:05''\<rparr>)"
    by (simp add: eventPreSave_def time_defs)
  have c: "\<not> ''title'' = ''time''" "\<not> ''date'' = ''time''" by simp_all
  have "slug (storedDevCon\<lparr>time := ''09:05''\<rparr>) = slug (storedDevCon\<lparr>time := ''9:05 am''\<rparr>) \<and>
        date (storedDevCon\<lparr>time := ''09:05''\<rparr>) = date (storedDevCon\<lparr>time := ''9:05 am''\<rparr>)"
    using eventPreSave_untouched [of "\<lambda>path. path = ''time''" sampleToISOString
        "[storedDevCon]" "storedDevCon\<lparr>time := ''9:05 am''\<rparr>"] e c
    by blast
  with n e show ?thesis by simp
qed

section \<open>Creating bookings\<close>

lemmas email_defs = validEmail_def emailChar_def emailSetters_def trim_def toLowerCase_def
  toLowerChar_def isSpace_def

lemma bookingPreSave_missing:
  "eid \<notin> docId ` set evs \<Longrightarrow>
     bookingPreSave evs True isModified \<lparr>eventId = eid, email = a\<rparr> =
       Inl ReferentialIntegrityViolation"
  by (auto simp: bookingPreSave_def find_None_iff split: option.splits dest: find_Some_iff [THEN iffD1])

lemma bookingPreSave_present:
  "eventId b \<in> docId ` set evs \<Longrightarrow> bookingPreSave evs isNew isModified b = Inr b"
  by (auto simp: bookingPreSave_def find_None_iff split: option.splits)

text \<open>
  Claim C5: a booking for an event that is not stored is rejected by the hook with
  \<open>ReferentialIntegrityViolation\<close>, and creating it fails and leaves the stored
  bookings as they were. The failure of the creation is that of the hook whenever the
  address passes the validator of the schema, which runs first.
\<close>

theorem Booking_create_missing_event:
  assumes "eid \<notin> docId ` set evs"
  shows "bookingPreSave evs True isModified \<lparr>eventId = eid, email = emailSetters addr\<rparr> =
           Inl ReferentialIntegrityViolation \<and>
         Booking_create evs bs eid addr =
           (Inl (if validEmail (emailSetters addr) then ReferentialIntegrityViolation
                 else ValidationFailed), bs)"
  using assms by (simp add: Booking_create_def Let_def bookingPreSave_missing)

text \<open>An instance of claim C5: no event has the identifier 999.\<close>

theorem Booking_create_missing_event_witness:
  "Booking_create [storedDevCon] [] 999 ''Ada@Example.org'' =
     (Inl ReferentialIntegrityViolation, [])"
  using Booking_create_missing_event [of 999 "[storedDevCon]" "\<lambda>path. True" "''Ada@Example.org''" "[]"]
  by (simp add: storedDevCon_def devConEvent_def email_defs)

lemma insertBooking_new:
  assumes "(eventId b, email b) \<notin> (\<lambda>x. (eventId x, email x)) ` set bs"
  shows "insertBooking bs b = (Inr b, bs @ [b])"
proof -
  from assms have "\<forall>x \<in> set bs. \<not> (eventId x = eventId b \<and> email x = email b)"
    by (metis (mono_tags, lifting) imageI)
  then show ?thesis by (simp add: insertBooking_def find_None_iff)
qed

lemma insertBooking_dup:
  assumes "(eventId b, email b) \<in> (\<lambda>x. (eventId x, email x)) ` set bs"
  shows "insertBooking bs b = (Inl DuplicateBooking, bs)"
proof -
  from assms have "\<exists>x \<in> set bs. eventId x = eventId b \<and> email x = email b"
    by auto
  then show ?thesis by (auto simp: insertBooking_def find_None_iff)
qed

lemma insertBooking_distinct:
  assumes "distinct (map (\<lambda>x. (eventId x, email x)) bs)"
  shows "distinct (map (\<lambda>x. (eventId x, email x)) (snd (insertBooking bs b)))"
proof (cases "(eventId b, email b) \<in> (\<lambda>x. (eventId x, email x)) ` set bs")
  case True
  then show ?thesis using assms by (simp add: insertBooking_dup)
next
  case False
  then show ?thesis using assms by (simp add: insertBooking_new)
qed

lemma Booking_create_distinct:
  assumes "distinct (map (\<lambda>x. (eventId x, email x)) bs)"
  shows "distinct (map (\<lambda>x. (eventId x, email x)) (snd (Booking_create evs bs eid addr)))"
  using assms insertBooking_distinct [OF assms]
  by (simp add: Booking_create_def Let_def bookingPreSave_def split: option.splits)

text \<open>
  Claim C4: for a stored event, a valid address and a pair of event and address that is
  not booked yet, the first creation succeeds and stores the booking; the second passes
  the hook, is rejected by the store's index with \<open>DuplicateBooking\<close> and changes
  nothing; the store then holds exactly one booking of the pair. Moreover no creation,
  whatever its outcome, makes two stored bookings share their pair of event and address.
\<close>

theorem Booking_create_twice:
  assumes "validEmail (emailSetters addr)"
    and "eid \<in> docId ` set evs"
    and "(eid, emailSetters addr) \<notin> (\<lambda>x. (eventId x, email x)) ` set bs"
    and "b = \<lparr>eventId = eid, email = emailSetters addr\<rparr>"
  shows "Booking_create evs bs eid addr = (Inr b, bs @ [b]) \<and>
         bookingPreSave evs True (\<lambda>path. True) b = Inr b \<and>
         insertBooking (bs @ [b]) b = (Inl DuplicateBooking, bs @ [b]) \<and>
         Booking_create evs (bs @ [b]) eid addr = (Inl DuplicateBooking, bs @ [b]) \<and>
         length (filter (\<lambda>x. eventId x = eid \<and> email x = emailSetters addr) (bs @ [b])) = 1 \<and>
         (distinct (map (\<lambda>x. (eventId x, email x)) bs') \<longrightarrow>
            distinct (map (\<lambda>x. (eventId x, email x))
                       (snd (Booking_create evs' bs' eid' addr'))))"
proof -
  have h: "bookingPreSave evs True (\<lambda>path. True) b = Inr b"
    using assms(2,4) by (simp add: bookingPreSave_present)
  have n: "insertBooking bs b = (Inr b, bs @ [b])"
    using assms(3,4) by (intro insertBooking_new) simp
  have d: "insertBooking (bs @ [b]) b = (Inl DuplicateBooking, bs @ [b])"
    by (intro insertBooking_dup) simp
  have c1: "Booking_create evs bs eid addr = (Inr b, bs @ [b])"
    using assms(1) h n unfolding assms(4) by (simp add: Booking_create_def Let_def)
  have c2: "Booking_create evs (bs @ [b]) eid addr = (Inl DuplicateBooking, bs @ [b])"
    using assms(1) h d unfolding assms(4) by (simp add: Booking_create_def Let_def)
  have "filter (\<lambda>x. eventId x = eid \<and> email x = emailSetters addr) bs = []"
    using assms(3) by (auto simp: filter_empty_conv)
  then have l: "length (filter (\<lambda>x. eventId x = eid \<and> email x = emailSetters addr) (bs @ [b])) = 1"
    by (simp add: assms(4))
  have i: "distinct (map (\<lambda>x. (eventId x, email x)) bs') \<longrightarrow>
            distinct (map (\<lambda>x. (eventId x, email x))
                       (snd (Booking_create evs' bs' eid' addr')))"
    by (rule impI) (rule Booking_create_distinct)
  from c1 h d c2 l i show ?thesis by (intro conjI)
qed

text \<open>An instance of claim C4: the same booking, created twice.\<close>

theorem Booking_create_twice_witness:
  "Booking_create [storedDevCon] [] 101 ''Ada@Example.org'' =
     (Inr \<lparr>eventId = 101, email = ''ada@example.org''\<rparr>,
      [\<lparr>eventId = 101, email = ''ada@example.org''\<rparr>]) \<and>
   Booking_create [storedDevCon] [\<lparr>eventId = 101, email = ''ada@example.org''\<rparr>] 101
       ''Ada@Example.org'' =
     (Inl DuplicateBooking, [\<lparr>eventId = 101, email = ''ada@example.org''\<rparr>])"
  using Booking_create_twice [of "''Ada@Example.org''" 101 "[storedDevCon]" "[]"
      "\<lparr>eventId = 101, email = ''ada@example.org''\<rparr>"]
  by (simp add: storedDevCon_def devConEvent_def email_defs)

section \<open>Looking up similar events\<close>

lemma find_distinct_slug:
  assumes "ev \<in> set evs" and "distinct (map slug evs)"
  shows "find (\<lambda>e. slug e = slug ev) evs = Some ev"
  using assms
proof (induction evs)
  case Nil
  then show ?case by simp
next
  case (Cons a evs)
  then show ?case by (cases "a = ev") (auto simp: image_iff)
qed

lemma shares_tag: "list_ex (\<lambda>t. t \<in> set ts) us \<longleftrightarrow> set us \<inter> set ts \<noteq> {}"
  by (auto simp: list_ex_iff)

text \<open>
  Claim C6: in a store with unique slugs, the lookup for a stored event returns exactly
  the stored events with another identifier that share a tag with it; it returns the
  empty list when there is none, and also when no stored event has the slug.
\<close>

lemma getSimilarEventsBySlug_filter:
  assumes "ev \<in> set evs" and "distinct (map slug evs)"
  shows "getSimilarEventsBySlug evs (slug ev) =
           filter (\<lambda>e. docId e \<noteq> docId ev \<and> set (tags e) \<inter> set (tags ev) \<noteq> {}) evs"
  using find_distinct_slug [OF assms]
  by (simp add: getSimilarEventsBySlug_def findSimilar_def shares_tag)

theorem getSimilarEventsBySlug_result:
  "(ev \<in> set evs \<and> distinct (map slug evs) \<longrightarrow>
      set (getSimilarEventsBySlug evs (slug ev)) =
        {e \<in> set evs. docId e \<noteq> docId ev \<and> set (tags e) \<inter> set (tags ev) \<noteq> {}} \<and>
      ((\<forall>e \<in> set evs. docId e = docId ev \<or> set (tags e) \<inter> set (tags ev) = {}) \<longrightarrow>
         getSimilarEventsBySlug evs (slug ev) = [])) \<and>
   (s \<notin> slug ` set evs \<longrightarrow> getSimilarEventsBySlug evs s = [])"
proof (intro conjI impI)
  assume a: "ev \<in> set evs \<and> distinct (map slug evs)"
  then have r: "getSimilarEventsBySlug evs (slug ev) =
        filter (\<lambda>e. docId e \<noteq> docId ev \<and> set (tags e) \<inter> set (tags ev) \<noteq> {}) evs"
    by (simp add: getSimilarEventsBySlug_filter)
  show "set (getSimilarEventsBySlug evs (slug ev)) =
        {e \<in> set evs. docId e \<noteq> docId ev \<and> set (tags e) \<inter> set (tags ev) \<noteq> {}}"
    unfolding r by auto
  assume "\<forall>e \<in> set evs. docId e = docId ev \<or> set (tags e) \<inter> set (tags ev) = {}"
  then show "getSimilarEventsBySlug evs (slug ev) = []"
    unfolding r by (auto simp: filter_empty_conv)
next
  assume "s \<notin> slug ` set evs"
  then have "find (\<lambda>e. slug e = s) evs = None"
    by (auto simp: find_None_iff)
  then show "getSimilarEventsBySlug evs s = []"
    by (simp add: getSimilarEventsBySlug_def findSimilar_def)
qed

text \<open>
  An instance of claim C6: three events, of which the second shares a tag with the first
  and with the third, and a slug that no event has.
\<close>

theorem getSimilarEventsBySlug_result_witness:
  "getSimilarEventsBySlug
     [taggedEvent 1 ''ai-summit'' [''ai'', ''cloud''], taggedEvent 2 ''cloud-day'' [''cloud'', ''web''],
      taggedEvent 3 ''web-conf'' [''web'']] ''ai-summit'' =
     [taggedEvent 2 ''cloud-day'' [''cloud'', ''web'']] \<and>
   getSimilarEventsBySlug
     [taggedEvent 1 ''ai-summit'' [''ai'', ''cloud''], taggedEvent 2 ''cloud-day'' [''cloud'', ''web''],
      taggedEvent 3 ''web-conf'' [''web'']] ''web-conf'' =
     [taggedEvent 2 ''cloud-day'' [''cloud'', ''web'']] \<and>
   getSimilarEventsBySlug
     [taggedEvent 1 ''ai-summit'' [''ai'', ''cloud''], taggedEvent 2 ''cloud-day'' [''cloud'', ''web''],
      taggedEvent 3 ''web-conf'' [''web'']] ''missing'' = []"
  using getSimilarEventsBySlug_result [of "taggedEvent 1 ''ai-summit'' [''ai'', ''cloud'']"
      "[taggedEvent 1 ''ai-summit'' [''ai'', ''cloud''], taggedEvent 2 ''cloud-day'' [''cloud'', ''web''],
        taggedEvent 3 ''web-conf'' [''web'']]" "''missing''"]
    getSimilarEventsBySlug_result [of "taggedEvent 3 ''web-conf'' [''web'']"
      "[taggedEvent 1 ''ai-summit'' [''ai'', ''cloud''], taggedEvent 2 ''cloud-day'' [''cloud'', ''web''],
        taggedEvent 3 ''web-conf'' [''web'']]" "''missing''"]
  by (simp add: taggedEvent_def devConEvent_def getSimilarEventsBySlug_def findSimilar_def)

end
